theory Spec2Isabelle
  imports Main "HOL-Library.Sublist" "HOL-Library.List_Lexorder"
begin

section \<open>Python strings\<close>

text \<open>
  A Python \<^verbatim>\<open>str\<close> is a sequence of Unicode code points; a code point is a natural
  number here, so that U+00A0 (no-break space) and U+2022 (bullet), which the source
  names, are single elements. ASCII literals are written \<open>py ''...''\<close>.
\<close>

type_synonym cp = nat
type_synonym pystr = "cp list"

definition py :: "string \<Rightarrow> pystr" where
  "py s = map of_char s"

text \<open>
  \<^verbatim>\<open>str.isspace\<close>, which is also what \<^verbatim>\<open>\s\<close> matches in a \<^verbatim>\<open>str\<close> pattern and what
  \<^verbatim>\<open>str.strip()\<close> removes: the 29 white-space code points of Unicode.
\<close>

definition isspace :: "cp \<Rightarrow> bool" where
  "isspace c \<longleftrightarrow>
     (9 \<le> c \<and> c \<le> 13) \<or> (28 \<le> c \<and> c \<le> 32) \<or> c = 133 \<or> c = 160 \<or> c = 5760 \<or>
     (8192 \<le> c \<and> c \<le> 8202) \<or> c = 8232 \<or> c = 8233 \<or> c = 8239 \<or> c = 8287 \<or> c = 12288"

text \<open>
  \<^verbatim>\<open>s.replace(old, new)\<close>: leftmost, non-overlapping occurrences. Every call site
  passes a non-empty \<open>old\<close>; for an empty \<open>old\<close> the model leaves the text as it is.
\<close>

function replace :: "pystr \<Rightarrow> pystr \<Rightarrow> pystr \<Rightarrow> pystr" where
  "replace old new [] = []"
| "replace old new (c # cs) =
     (if old \<noteq> [] \<and> prefix old (c # cs)
      then new @ replace old new (drop (length old) (c # cs))
      else c # replace old new cs)"
  by pat_completeness auto
termination
  by (relation "measure (\<lambda>(old, new, s). length s)") (auto simp: neq_Nil_conv)

text \<open>\<^verbatim>\<open>s.strip()\<close> and \<^verbatim>\<open>s.strip(chars)\<close>.\<close>

definition strip_by :: "(cp \<Rightarrow> bool) \<Rightarrow> pystr \<Rightarrow> pystr" where
  "strip_by P s = rev (dropWhile P (rev (dropWhile P s)))"

definition strip :: "pystr \<Rightarrow> pystr" where
  "strip s = strip_by isspace s"

definition strip_chars :: "pystr \<Rightarrow> pystr \<Rightarrow> pystr" where
  "strip_chars chars s = strip_by (\<lambda>c. c \<in> set chars) s"

section \<open>utils.py: cleaning\<close>

text \<open>
  \<^verbatim>\<open>WHITESPACE_RE.sub(" ", s)\<close> with \<^verbatim>\<open>WHITESPACE_RE = re.compile(r"\s+")\<close>: the
  leftmost match of the greedy \<^verbatim>\<open>\s+\<close> is a maximal run of white space; it is
  replaced by one space and the scan goes on behind it.
\<close>

function sub_ws :: "pystr \<Rightarrow> pystr" where
  "sub_ws [] = []"
| "sub_ws (c # cs) =
     (if isspace c then 32 # sub_ws (dropWhile isspace cs) else c # sub_ws cs)"
  by pat_completeness auto
termination
  by (relation "measure length") (auto simp: length_dropWhile_le less_Suc_eq_le)

definition clean_text :: "pystr \<Rightarrow> pystr" where
  "clean_text text =
     (if text = [] then []
      else strip (sub_ws (replace [13] [10] (replace [13, 10] [10] (replace [160] [32] text)))))"

section \<open>Unicode character classes\<close>

text \<open>
  The classes below are Python's on the code points U+0000 to U+00FF. Python takes them
  from the Unicode character database, which is not part of the repository; above U+00FF
  a code point is taken to be an uncased symbol that is neither a letter nor a digit
  (which is what U+2022, the bullet of the source, is).
\<close>

abbreviation ch :: "char \<Rightarrow> cp" where
  "ch c \<equiv> of_char c"

definition ascii_upper :: "cp \<Rightarrow> bool" where
  "ascii_upper c \<longleftrightarrow> 65 \<le> c \<and> c \<le> 90"

definition ascii_lower :: "cp \<Rightarrow> bool" where
  "ascii_lower c \<longleftrightarrow> 97 \<le> c \<and> c \<le> 122"

definition ascii_alpha :: "cp \<Rightarrow> bool" where
  "ascii_alpha c \<longleftrightarrow> ascii_upper c \<or> ascii_lower c"

text \<open>\<^verbatim>\<open>\d\<close> (\<^verbatim>\<open>str.isdecimal\<close>).\<close>

definition isdecimal :: "cp \<Rightarrow> bool" where
  "isdecimal c \<longleftrightarrow> 48 \<le> c \<and> c \<le> 57"

text \<open>\<^verbatim>\<open>str.isupper\<close> of a one-character string: the upper-case letters.\<close>

definition isupper :: "cp \<Rightarrow> bool" where
  "isupper c \<longleftrightarrow> ascii_upper c \<or> (192 \<le> c \<and> c \<le> 222 \<and> c \<noteq> 215)"

text \<open>\<^verbatim>\<open>str.isalpha\<close> of a one-character string.\<close>

definition isalpha :: "cp \<Rightarrow> bool" where
  "isalpha c \<longleftrightarrow>
     ascii_alpha c \<or> c = 170 \<or> c = 181 \<or> c = 186 \<or>
     (192 \<le> c \<and> c \<le> 255 \<and> c \<noteq> 215 \<and> c \<noteq> 247)"

text \<open>\<^verbatim>\<open>str.isdigit\<close> of one character: the decimal digits and the superscripts 1, 2, 3.\<close>

definition isdigit :: "cp \<Rightarrow> bool" where
  "isdigit c \<longleftrightarrow> isdecimal c \<or> c = 178 \<or> c = 179 \<or> c = 185"

text \<open>\<^verbatim>\<open>str.isalnum\<close> of one character (letters, digits, and the fractions U+00BC to U+00BE).\<close>

definition isalnum :: "cp \<Rightarrow> bool" where
  "isalnum c \<longleftrightarrow> isalpha c \<or> isdigit c \<or> (188 \<le> c \<and> c \<le> 190)"

text \<open>\<^verbatim>\<open>\w\<close> in a \<^verbatim>\<open>str\<close> pattern.\<close>

definition is_word :: "cp \<Rightarrow> bool" where
  "is_word c \<longleftrightarrow> isalnum c \<or> c = ch CHR ''_''"

text \<open>\<^verbatim>\<open>str.lower\<close>, code point by code point.\<close>

definition lower_cp :: "cp \<Rightarrow> cp" where
  "lower_cp c = (if isupper c then c + 32 else c)"

definition lower :: "pystr \<Rightarrow> pystr" where
  "lower s = map lower_cp s"

text \<open>
  A pattern character \<open>p\<close> under \<^verbatim>\<open>re.IGNORECASE\<close> matches the characters that lower
  to it and, as the \<^verbatim>\<open>re\<close> documentation lists, four letters beyond ASCII: U+0130 and
  U+0131 for \<^verbatim>\<open>i\<close>, U+017F for \<^verbatim>\<open>s\<close>, U+212A for \<^verbatim>\<open>k\<close>. Every pattern of the source
  is ASCII.
\<close>

definition ci_match :: "cp \<Rightarrow> cp \<Rightarrow> bool" where
  "ci_match p x \<longleftrightarrow>
     lower_cp x = lower_cp p \<or>
     (lower_cp p = ch CHR ''i'' \<and> (x = 304 \<or> x = 305)) \<or>
     (lower_cp p = ch CHR ''s'' \<and> x = 383) \<or>
     (lower_cp p = ch CHR ''k'' \<and> x = 8490)"

section \<open>Splitting and joining\<close>

text \<open>\<^verbatim>\<open>s.split(sep)\<close> for a one-character separator: never empty.\<close>

fun split_on :: "cp \<Rightarrow> pystr \<Rightarrow> pystr list" where
  "split_on d [] = [[]]"
| "split_on d (c # cs) =
     (if c = d then [] # split_on d cs
      else (case split_on d cs of l # ls \<Rightarrow> (c # l) # ls | [] \<Rightarrow> [[c]]))"

text \<open>\<^verbatim>\<open>sep.join(xs)\<close>.\<close>

fun join :: "pystr \<Rightarrow> pystr list \<Rightarrow> pystr" where
  "join sep [] = []"
| "join sep [x] = x"
| "join sep (x # y # ys) = x @ sep @ join sep (y # ys)"

text \<open>\<^verbatim>\<open>s.split()\<close>: the maximal runs of characters that are not white space.\<close>

function split_ws :: "pystr \<Rightarrow> pystr list" where
  "split_ws s =
     (case dropWhile isspace s of
        [] \<Rightarrow> []
      | c # cs \<Rightarrow> takeWhile (\<lambda>x. \<not> isspace x) (c # cs) # split_ws (dropWhile (\<lambda>x. \<not> isspace x) cs))"
  by pat_completeness auto
termination
proof (relation "measure length")
  show "wf (measure length)" by simp
next
  fix s :: pystr and c cs
  assume a: "dropWhile isspace s = c # cs"
  have "length (dropWhile (\<lambda>x. \<not> isspace x) cs) \<le> length cs"
    by (rule length_dropWhile_le)
  moreover have "length (c # cs) \<le> length s"
    using length_dropWhile_le [of isspace s] a by simp
  ultimately show "(dropWhile (\<lambda>x. \<not> isspace x) cs, s) \<in> measure length"
    by simp
qed

section \<open>Regular expressions\<close>

text \<open>
  The fragment of Python's \<^verbatim>\<open>re\<close> that the source's patterns use. Repetition is of a
  single character class, which is all the patterns need: \<open>Rep P lo hi\<close> is the greedy
  \<^verbatim>\<open>X{lo,hi}\<close> (\<^verbatim>\<open>X*\<close>, \<^verbatim>\<open>X+\<close>, \<^verbatim>\<open>X?\<close>), \<open>Opt r\<close> the greedy \<^verbatim>\<open>(?:r)?\<close>, \<open>Grp r\<close> capture
  group 1 (no pattern has a second group), \<open>LitI\<close> a literal under \<^verbatim>\<open>re.I\<close>.
\<close>

datatype re =
    Eps
  | Lit pystr
  | LitI pystr
  | Cls "cp \<Rightarrow> bool"
  | Rep "cp \<Rightarrow> bool" nat "nat option"
  | Seq re re
  | Alt re re
  | Opt re
  | Grp re
  | Bol
  | Eol
  | NotBehind "cp \<Rightarrow> bool"
  | NotAhead "cp \<Rightarrow> bool"

definition seq :: "re list \<Rightarrow> re" where
  "seq rs = foldr Seq rs Eps"

text \<open>
  A matcher state: the text before the position, reversed; the text from the position
  on; the text of group 1, if the group has matched.
\<close>

type_synonym mstate = "pystr \<times> pystr \<times> pystr option"

definition consumed :: "pystr \<Rightarrow> pystr \<Rightarrow> pystr" where
  "consumed bef bef' = rev (take (length bef' - length bef) bef')"

text \<open>
  \<open>rm r st\<close> lists the states in which a match of \<open>r\<close> from \<open>st\<close> can end, in the order
  in which Python's backtracking matcher tries them: the longer repetition first, the
  left alternative first. Python's match is the head of the list.
\<close>

fun rm :: "re \<Rightarrow> mstate \<Rightarrow> mstate list" where
  "rm Eps st = [st]"
| "rm (Lit l) (bef, aft, g) =
     (if prefix l aft then [(rev l @ bef, drop (length l) aft, g)] else [])"
| "rm (LitI l) (bef, aft, g) =
     (if length l \<le> length aft \<and> list_all2 ci_match l (take (length l) aft)
      then [(rev (take (length l) aft) @ bef, drop (length l) aft, g)] else [])"
| "rm (Cls P) (bef, aft, g) =
     (case aft of [] \<Rightarrow> [] | c # cs \<Rightarrow> if P c then [(c # bef, cs, g)] else [])"
| "rm (Rep P lo hi) (bef, aft, g) =
     (let run = length (takeWhile P aft);
          m = (case hi of None \<Rightarrow> run | Some h \<Rightarrow> min h run)
      in map (\<lambda>n. (rev (take n aft) @ bef, drop n aft, g)) (rev [lo..<Suc m]))"
| "rm (Seq a b) st = concat (map (rm b) (rm a st))"
| "rm (Alt a b) st = rm a st @ rm b st"
| "rm (Opt a) st = rm a st @ [st]"
| "rm (Grp a) (bef, aft, g) =
     map (\<lambda>(bef', aft', g'). (bef', aft', Some (consumed bef bef'))) (rm a (bef, aft, g))"
| "rm Bol (bef, aft, g) = (if bef = [] then [(bef, aft, g)] else [])"
| "rm Eol (bef, aft, g) = (if aft = [] \<or> aft = [10] then [(bef, aft, g)] else [])"
| "rm (NotBehind P) (bef, aft, g) = (if bef \<noteq> [] \<and> P (hd bef) then [] else [(bef, aft, g)])"
| "rm (NotAhead P) (bef, aft, g) = (if aft \<noteq> [] \<and> P (hd aft) then [] else [(bef, aft, g)])"

text \<open>A match object: \<^verbatim>\<open>group(0)\<close> and \<^verbatim>\<open>group(1)\<close> (\<open>None\<close> when group 1 took no part).\<close>

type_synonym match = "pystr \<times> pystr option"

definition first_match :: "pystr \<Rightarrow> mstate list \<Rightarrow> match option" where
  "first_match bef sts =
     (case sts of [] \<Rightarrow> None | (bef', aft', g) # _ \<Rightarrow> Some (consumed bef bef', g))"

text \<open>\<^verbatim>\<open>pattern.match(s)\<close>: a match at the start of the text.\<close>

definition re_match :: "re \<Rightarrow> pystr \<Rightarrow> match option" where
  "re_match r s = first_match [] (rm r ([], s, None))"

text \<open>\<^verbatim>\<open>pattern.search(s)\<close>: the match at the leftmost position that has one.\<close>

fun re_search_from :: "re \<Rightarrow> pystr \<Rightarrow> pystr \<Rightarrow> match option" where
  "re_search_from r bef [] = first_match bef (rm r (bef, [], None))"
| "re_search_from r bef (c # cs) =
     (case first_match bef (rm r (bef, c # cs, None)) of
        Some m \<Rightarrow> Some m
      | None \<Rightarrow> re_search_from r (c # bef) cs)"

definition re_search :: "re \<Rightarrow> pystr \<Rightarrow> match option" where
  "re_search r s = re_search_from r [] s"

section \<open>utils.py: pattern extractors\<close>

text \<open>\<^verbatim>\<open>EMAIL_RE = [A-Za-z0-9._%+-]+@[A-Za-z0-9.-]+\.[A-Za-z]{2,}\<close>\<close>

definition EMAIL_RE :: re where
  "EMAIL_RE = seq
     [Rep (\<lambda>c. ascii_alpha c \<or> isdecimal c \<or> c \<in> set (py ''._%+-'')) 1 None,
      Lit (py ''@''),
      Rep (\<lambda>c. ascii_alpha c \<or> isdecimal c \<or> c \<in> set (py ''.-'')) 1 None,
      Lit (py ''.''),
      Rep ascii_alpha 2 None]"

text \<open>
  \<^verbatim>\<open>PHONE_RE = (?:(?:\+?\d{1,3}[\s.-]?)?(?:\(?\d{3}\)?|\d{3})[\s.-]?\d{3}[\s.-]?\d{4})\<close>
\<close>

definition phone_sep :: "cp \<Rightarrow> bool" where
  "phone_sep c \<longleftrightarrow> isspace c \<or> c = ch CHR ''.'' \<or> c = ch CHR ''-''"

definition PHONE_RE :: re where
  "PHONE_RE = seq
     [Opt (seq [Rep (\<lambda>c. c = ch CHR ''+'') 0 (Some 1), Rep isdecimal 1 (Some 3),
                Rep phone_sep 0 (Some 1)]),
      Alt (seq [Rep (\<lambda>c. c = ch CHR ''('') 0 (Some 1), Rep isdecimal 3 (Some 3),
                Rep (\<lambda>c. c = ch CHR '')'') 0 (Some 1)])
          (Rep isdecimal 3 (Some 3)),
      Rep phone_sep 0 (Some 1), Rep isdecimal 3 (Some 3),
      Rep phone_sep 0 (Some 1), Rep isdecimal 4 (Some 4)]"

text \<open>
  \<^verbatim>\<open>LINKEDIN_RE = https?://(?:www\.)?linkedin\.com/[\w\-/]+\<close> and
  \<^verbatim>\<open>GITHUB_RE = https?://(?:www\.)?github\.com/[\w\-/]+\<close>, both with \<^verbatim>\<open>re.I\<close>.
\<close>

definition profile_re :: "pystr \<Rightarrow> re" where
  "profile_re host = seq
     [LitI (py ''http''), Rep (ci_match (ch CHR ''s'')) 0 (Some 1), LitI (py ''://''),
      Opt (LitI (py ''www.'')), LitI host,
      Rep (\<lambda>c. is_word c \<or> c = ch CHR ''-'' \<or> c = ch CHR ''/'') 1 None]"

definition LINKEDIN_RE :: re where
  "LINKEDIN_RE = profile_re (py ''linkedin.com/'')"

definition GITHUB_RE :: re where
  "GITHUB_RE = profile_re (py ''github.com/'')"

text \<open>
  \<^verbatim>\<open>matches = RE.findall(text or ""); return matches[0] if matches else None\<close>.
  None of the four patterns has a capture group, so \<^verbatim>\<open>findall\<close> lists the matched
  texts from left to right, and its first element is the text of the leftmost match.
\<close>

definition findall_first :: "re \<Rightarrow> pystr \<Rightarrow> pystr option" where
  "findall_first r text = map_option fst (re_search r text)"

definition extract_email :: "pystr \<Rightarrow> pystr option" where
  "extract_email text = findall_first EMAIL_RE text"

definition extract_phone :: "pystr \<Rightarrow> pystr option" where
  "extract_phone text = findall_first PHONE_RE text"

definition extract_linkedin :: "pystr \<Rightarrow> pystr option" where
  "extract_linkedin text = findall_first LINKEDIN_RE text"

definition extract_github :: "pystr \<Rightarrow> pystr option" where
  "extract_github text = findall_first GITHUB_RE text"

section \<open>utils.py: skills\<close>

definition DEFAULT_SKILLS :: "pystr list" where
  "DEFAULT_SKILLS = map py
     [''python'', ''java'', ''javascript'', ''typescript'', ''go'', ''c++'', ''c#'', ''ruby'',
      ''scala'', ''rust'', ''sql'',
      ''react'', ''node'', ''django'', ''flask'', ''fastapi'', ''spring'', ''rails'',
      ''angular'', ''vue'',
      ''pandas'', ''numpy'', ''scikit-learn'', ''tensorflow'', ''pytorch'', ''spacy'', ''nltk'',
      ''aws'', ''gcp'', ''azure'', ''docker'', ''kubernetes'', ''terraform'', ''git'']"

text \<open>The lookbehind class \<^verbatim>\<open>[\w+#.]\<close> and the lookahead class \<^verbatim>\<open>[\w+-]\<close>.\<close>

definition skill_behind :: "cp \<Rightarrow> bool" where
  "skill_behind c \<longleftrightarrow> is_word c \<or> c = ch CHR ''+'' \<or> c = ch CHR ''#'' \<or> c = ch CHR ''.''"

definition skill_ahead :: "cp \<Rightarrow> bool" where
  "skill_ahead c \<longleftrightarrow> is_word c \<or> c = ch CHR ''+'' \<or> c = ch CHR ''-''"

text \<open>\<^verbatim>\<open>rf"(?<![\w+#.]){re.escape(skill)}(?![\w+-])"\<close>\<close>

definition skill_pattern :: "pystr \<Rightarrow> re" where
  "skill_pattern skill = seq [NotBehind skill_behind, Lit skill, NotAhead skill_ahead]"

text \<open>
  \<open>extra_skills\<close> is the optional iterable of the source, \<open>[]\<close> standing for \<^verbatim>\<open>None\<close>
  as well as for an empty one. \<^verbatim>\<open>sorted(dictionary)\<close> orders strings by code point.
\<close>

definition find_skills :: "pystr \<Rightarrow> pystr list \<Rightarrow> pystr list" where
  "find_skills text extra_skills =
     (if text = [] then []
      else
        let dictionary = set (map lower DEFAULT_SKILLS) \<union> set (map lower extra_skills);
            text_lower = py '' '' @ lower text @ py '' ''
        in filter (\<lambda>skill. re_search (skill_pattern skill) text_lower \<noteq> None)
             (sorted_list_of_set dictionary))"

section \<open>utils.py: sections\<close>

text \<open>Section names and dictionary keys are identifiers of the program, kept as \<open>string\<close>.\<close>

definition SECTION_HEADERS :: "(string \<times> string list) list" where
  "SECTION_HEADERS =
     [(''education'', [''education'', ''academic background'']),
      (''experience'', [''experience'', ''work experience'', ''employment history'']),
      (''skills'', [''skills'', ''technical skills'', ''skills & endorsements'']),
      (''projects'', [''projects'', ''personal projects'']),
      (''certifications'', [''certifications'', ''licenses'', ''certifications & licenses'']),
      (''responsibilities'', [''responsibilities'', ''what you'll do'', ''what you will do'']),
      (''requirements'', [''requirements'', ''what you'll need'', ''qualifications''])]"

text \<open>
  \<^verbatim>\<open>header_map = {h: name for name, hs in SECTION_HEADERS.items() for h in hs}\<close>, in
  insertion order; the phrases are pairwise distinct.
\<close>

definition header_map :: "(pystr \<times> string) list" where
  "header_map = concat (map (\<lambda>(name, hs). map (\<lambda>h. (py h, name)) hs) SECTION_HEADERS)"

text \<open>\<^verbatim>\<open>re.compile(rf"^\s*{re.escape(h)}\s*:?$", re.I)\<close>\<close>

definition header_pattern :: "pystr \<Rightarrow> re" where
  "header_pattern h = seq
     [Bol, Rep isspace 0 None, LitI h, Rep isspace 0 None,
      Rep (\<lambda>c. c = ch CHR '':'') 0 (Some 1), Eol]"

text \<open>
  The inner loop over \<^verbatim>\<open>header_patterns.items()\<close>: the first phrase whose pattern
  matches the line, with the section name \<^verbatim>\<open>header_map[matched]\<close> (the phrase is a key of
  \<open>header_map\<close>, so the lookup cannot fail).
\<close>

definition match_header :: "pystr \<Rightarrow> (pystr \<times> string) option" where
  "match_header ln = find (\<lambda>(h, name). re_match (header_pattern h) ln \<noteq> None) header_map"

text \<open>The loop state: \<^verbatim>\<open>sections\<close>, \<^verbatim>\<open>current_name\<close>, \<^verbatim>\<open>current_lines\<close>.\<close>

type_synonym seg_state = "(string \<times> pystr) list \<times> string \<times> pystr list"

fun flush :: "seg_state \<Rightarrow> seg_state" where
  "flush (sections, current_name, current_lines) =
     (if current_lines \<noteq> []
      then (sections @ [(current_name, strip (join (py ''\<newline>'') current_lines))], current_name, [])
      else (sections, current_name, []))"

definition seg_step :: "seg_state \<Rightarrow> pystr \<Rightarrow> seg_state" where
  "seg_step st ln =
     (case match_header ln of
        Some (matched, name) \<Rightarrow> (case flush st of (sections, _, lns) \<Rightarrow> (sections, name, lns))
      | None \<Rightarrow> (case st of (sections, current_name, current_lines) \<Rightarrow>
                  (sections, current_name, current_lines @ [ln])))"

definition nonblank_lines :: "pystr \<Rightarrow> pystr list" where
  "nonblank_lines text = map strip (filter (\<lambda>ln. strip ln \<noteq> []) (split_on (ch CHR ''\<newline>'') text))"

definition segment_lines :: "pystr list \<Rightarrow> (string \<times> pystr) list" where
  "segment_lines lns = fst (flush (foldl seg_step ([], ''body'', []) lns))"

definition split_sections :: "pystr \<Rightarrow> (string \<times> pystr) list" where
  "split_sections text =
     (if text = [] then [(''body'', [])]
      else
        let lns = nonblank_lines text
        in if lns = [] then [(''body'', [])]
           else
             let sections = segment_lines lns
             in if sections \<noteq> [] then sections else [(''body'', text)])"

section \<open>Parser output\<close>

text \<open>
  The parsers return JSON-like dictionaries: a value is \<^verbatim>\<open>None\<close>, a string, a list of
  strings or a dictionary; a dictionary is a list of key-value pairs in insertion order.
  An operation of the source that can raise returns \<open>Inl\<close> of the exception.
\<close>

datatype pyval = PNone | PStr pystr | PList "pystr list" | PDict "(string \<times> pyval) list"

type_synonym pydict = "(string \<times> pyval) list"

datatype py_error = AttributeError

definition opt_val :: "pystr option \<Rightarrow> pyval" where
  "opt_val v = (case v of None \<Rightarrow> PNone | Some s \<Rightarrow> PStr s)"

text \<open>\<^verbatim>\<open>d.get(key)\<close> and \<^verbatim>\<open>d.get(key, default)\<close>.\<close>

definition dict_get :: "pydict \<Rightarrow> string \<Rightarrow> pyval \<Rightarrow> pyval" where
  "dict_get d key dflt = (case map_of d key of Some v \<Rightarrow> v | None \<Rightarrow> dflt)"

text \<open>
  File reading is outside the model: in the three parsers \<open>raw\<close> stands for the text
  that \<^verbatim>\<open>_read_any(file_path)\<close> returns, the same at every read within one call.
\<close>

section \<open>resume_parser.py\<close>

text \<open>
  The optional spaCy model: \<open>None\<close> when \<^verbatim>\<open>_init_nlp()\<close> returns \<^verbatim>\<open>None\<close>; otherwise a
  function from a text to its entities as (text, label) pairs, or to \<open>None\<close> when the
  call raises (the source catches every exception of it).
\<close>

type_synonym nlp_model = "pystr \<Rightarrow> (pystr \<times> pystr) list option"

definition ner_people :: "nlp_model option \<Rightarrow> pystr \<Rightarrow> pystr list" where
  "ner_people nlp first_chunk =
     (case nlp of
        None \<Rightarrow> []
      | Some model \<Rightarrow>
          (case model first_chunk of
             None \<Rightarrow> []
           | Some ents \<Rightarrow> map (\<lambda>(text, label). strip text) (filter (\<lambda>(text, label). label = py ''PERSON'') ents)))"

text \<open>\<^verbatim>\<open>t[0:1].isalpha()\<close> and \<^verbatim>\<open>t[:1].isupper()\<close>.\<close>

definition first_isalpha :: "pystr \<Rightarrow> bool" where
  "first_isalpha t = (case t of [] \<Rightarrow> False | c # _ \<Rightarrow> isalpha c)"

definition first_isupper :: "pystr \<Rightarrow> bool" where
  "first_isupper t = (case t of [] \<Rightarrow> False | c # _ \<Rightarrow> isupper c)"

definition name_like :: "pystr \<Rightarrow> bool" where
  "name_like ln =
     (let tokens = split_ws (strip ln)
      in 1 < length tokens \<and> length tokens \<le> 5 \<and> list_all first_isalpha tokens \<and>
         1 \<le> length (filter first_isupper tokens))"

definition guess_name :: "pystr \<Rightarrow> nlp_model option \<Rightarrow> pystr option" where
  "guess_name text nlp =
     (if text = [] then None
      else
        let first_chunk = join (py ''\<newline>'') (take 10 (split_on (ch CHR ''\<newline>'') text))
        in (case ner_people nlp first_chunk of
              p # _ \<Rightarrow> Some p
            | [] \<Rightarrow> map_option strip (find name_like (split_on (ch CHR ''\<newline>'') first_chunk))))"

text \<open>
  The loop shared by \<^verbatim>\<open>_extract_education\<close> and \<^verbatim>\<open>_extract_experience\<close>: the trimmed
  non-empty lines that contain one of the keywords, in lower case.
\<close>

definition keyword_lines :: "pystr list \<Rightarrow> pystr \<Rightarrow> pystr list" where
  "keyword_lines keys section_text =
     filter (\<lambda>ln. list_ex (\<lambda>k. sublist k (lower ln)) keys)
       (filter (\<lambda>ln. ln \<noteq> []) (map strip (split_on (ch CHR ''\<newline>'') section_text)))"

definition extract_education :: "pystr \<Rightarrow> pystr list" where
  "extract_education section_text =
     keyword_lines
       (map py [''bsc'', ''b.s'', ''bs '', ''bachelor'', ''msc'', ''m.s'', ''ms '', ''master'',
                ''phd'', ''ph.d'', ''associate'', ''diploma'', ''university'', ''college''])
       section_text"

definition extract_experience :: "pystr \<Rightarrow> pystr list" where
  "extract_experience section_text =
     keyword_lines
       (map py [''engineer'', ''developer'', ''manager'', ''designer'', ''intern'', ''analyst'',
                ''lead'', ''founder'', ''consultant'', ''architect''])
       section_text"

definition extract_projects :: "pystr \<Rightarrow> pystr list" where
  "extract_projects section_text = take 20 (nonblank_lines section_text)"

definition extract_certs :: "pystr \<Rightarrow> pystr list" where
  "extract_certs section_text = take 20 (nonblank_lines section_text)"

text \<open>\<^verbatim>\<open>"\n".join(s for name_s, s in sections if name_s == kind)\<close>\<close>

definition sections_of :: "string \<Rightarrow> (string \<times> pystr) list \<Rightarrow> pystr" where
  "sections_of kind sections =
     join (py ''\<newline>'') (map snd (filter (\<lambda>(name_s, s). name_s = kind) sections))"

definition extract_resume_data :: "nlp_model option \<Rightarrow> pystr \<Rightarrow> pydict" where
  "extract_resume_data nlp raw =
     (let text = clean_text raw;
          email = extract_email text;
          phone = extract_phone text;
          linkedin = extract_linkedin text;
          github = extract_github text;
          name = guess_name text nlp;
          sections = split_sections text;
          edu_sec = sections_of ''education'' sections;
          exp_sec = sections_of ''experience'' sections;
          skills_sec = sections_of ''skills'' sections;
          projects_sec = sections_of ''projects'' sections;
          certs_sec = sections_of ''certifications'' sections;
          education = extract_education edu_sec;
          experience = extract_experience exp_sec;
          projects = extract_projects projects_sec;
          certifications = extract_certs certs_sec;
          skills = find_skills (if skills_sec \<noteq> [] then skills_sec else text) []
      in [(''name'', opt_val name),
          (''email'', opt_val email),
          (''phone'', opt_val phone),
          (''education'', PList education),
          (''experience'', PList experience),
          (''skills'', PList skills),
          (''projects'', PList projects),
          (''certifications'', PList certifications),
          (''linkedin'', opt_val linkedin),
          (''github'', opt_val github),
          (''raw_text'', PStr text)])"

section \<open>job_parser.py\<close>

text \<open>\<^verbatim>\<open>TITLE_RE = (?:Job\s*Title|Title)\s*:?\s*(.+)\<close>, \<^verbatim>\<open>re.I\<close>\<close>

definition label_value_re :: "re \<Rightarrow> re" where
  "label_value_re label = seq
     [label, Rep isspace 0 None, Rep (\<lambda>c. c = ch CHR '':'') 0 (Some 1), Rep isspace 0 None,
      Grp (Rep (\<lambda>c. c \<noteq> ch CHR ''\<newline>'') 1 None)]"

definition TITLE_RE :: re where
  "TITLE_RE = label_value_re
     (Alt (seq [LitI (py ''Job''), Rep isspace 0 None, LitI (py ''Title'')]) (LitI (py ''Title'')))"

text \<open>\<^verbatim>\<open>COMPANY_RE = (?:Company|Employer|Organization)\s*:?\s*(.+)\<close>, \<^verbatim>\<open>re.I\<close>\<close>

definition COMPANY_RE :: re where
  "COMPANY_RE = label_value_re
     (Alt (LitI (py ''Company'')) (Alt (LitI (py ''Employer'')) (LitI (py ''Organization''))))"

text \<open>\<^verbatim>\<open>LOCATION_RE = (?:Location|Based\s*in)\s*:?\s*(.+)\<close>, \<^verbatim>\<open>re.I\<close>\<close>

definition LOCATION_RE :: re where
  "LOCATION_RE = label_value_re
     (Alt (LitI (py ''Location'')) (seq [LitI (py ''Based''), Rep isspace 0 None, LitI (py ''in'')]))"

text \<open>\<^verbatim>\<open>EXPERIENCE_RE = (\d+\+?\s*(?:years|yrs)\s+of\s+experience[^\n]*)\<close>, \<^verbatim>\<open>re.I\<close>\<close>

definition EXPERIENCE_RE :: re where
  "EXPERIENCE_RE = Grp (seq
     [Rep isdecimal 1 None, Rep (\<lambda>c. c = ch CHR ''+'') 0 (Some 1), Rep isspace 0 None,
      Alt (LitI (py ''years'')) (LitI (py ''yrs'')),
      Rep isspace 1 None, LitI (py ''of''), Rep isspace 1 None, LitI (py ''experience''),
      Rep (\<lambda>c. c \<noteq> ch CHR ''\<newline>'') 0 None])"

text \<open>\<^verbatim>\<open>EDUCATION_RE = (Bachelor'?s|Master'?s|Ph\.?D\.|BS|BA|MS|MA)[^\n]*\<close>, \<^verbatim>\<open>re.I\<close> (code point 39 is the
  apostrophe).\<close>

definition degree_re :: re where
  "degree_re =
     Alt (seq [LitI (py ''Bachelor''), Rep (\<lambda>c. c = 39) 0 (Some 1), LitI (py ''s'')])
    (Alt (seq [LitI (py ''Master''), Rep (\<lambda>c. c = 39) 0 (Some 1), LitI (py ''s'')])
    (Alt (seq [LitI (py ''Ph''), Rep (\<lambda>c. c = ch CHR ''.'') 0 (Some 1), LitI (py ''D.'')])
    (Alt (LitI (py ''BS''))
    (Alt (LitI (py ''BA''))
    (Alt (LitI (py ''MS''))
         (LitI (py ''MA'')))))))"

definition EDUCATION_RE :: re where
  "EDUCATION_RE = seq [Grp degree_re, Rep (\<lambda>c. c \<noteq> ch CHR ''\<newline>'') 0 None]"

text \<open>
  \<^verbatim>\<open>m = regex.search(text or ""); return m.group(1).strip() if m else None\<close>.
  \<^verbatim>\<open>group(1)\<close> is \<^verbatim>\<open>None\<close> when the group took no part in the match, and
  \<^verbatim>\<open>None.strip()\<close> raises \<^verbatim>\<open>AttributeError\<close>.
\<close>

definition extract_first_match :: "re \<Rightarrow> pystr \<Rightarrow> py_error + pystr option" where
  "extract_first_match regex text =
     (case re_search regex text of
        None \<Rightarrow> Inr None
      | Some (g0, g1) \<Rightarrow> (case g1 of None \<Rightarrow> Inl AttributeError | Some g \<Rightarrow> Inr (Some (strip g))))"

text \<open>\<^verbatim>\<open>s.isdigit()\<close>: not empty, and digits only.\<close>

definition str_isdigit :: "pystr \<Rightarrow> bool" where
  "str_isdigit s \<longleftrightarrow> s \<noteq> [] \<and> list_all isdigit s"

text \<open>The characters of \<^verbatim>\<open>" -\<bullet>\t"\<close> (space, hyphen, U+2022, tab).\<close>

definition bullet_strip :: pystr where
  "bullet_strip = [ch CHR '' '', ch CHR ''-'', 8226, 9]"

definition extract_bullets :: "pystr \<Rightarrow> pystr list" where
  "extract_bullets section_text =
     (let lines = map (strip_chars bullet_strip)
                    (filter (\<lambda>ln. strip ln \<noteq> []) (split_on (ch CHR ''\<newline>'') section_text));
          bullets = filter (\<lambda>ln. list_ex (\<lambda>p. prefix p ln) [py ''-'', py ''*'', [8226]] \<or>
                                 str_isdigit (take 2 ln)) lines
      in if bullets \<noteq> [] then bullets else take 20 lines)"

definition find_section :: "pystr \<Rightarrow> string list \<Rightarrow> pystr" where
  "find_section text names =
     (case find (\<lambda>(section_name, section_text). section_name \<in> set names) (split_sections text) of
        Some (section_name, section_text) \<Rightarrow> section_text
      | None \<Rightarrow> [])"

text \<open>
  \<^verbatim>\<open>"\n".join(ln for ln in text.split("\n") if any(k in ln.lower() for k in keys))\<close>
\<close>

definition cue_lines :: "pystr list \<Rightarrow> pystr \<Rightarrow> pystr" where
  "cue_lines keys text =
     join (py ''\<newline>'')
       (filter (\<lambda>ln. list_ex (\<lambda>k. sublist k (lower ln)) keys) (split_on (ch CHR ''\<newline>'') text))"

definition responsibilities_section :: "pystr \<Rightarrow> pystr" where
  "responsibilities_section text =
     (let responsibilities_sec = find_section text [''responsibilities'']
      in if responsibilities_sec = []
         then cue_lines (map py [''responsibilities'', ''you will'', ''you'll'']) text
         else responsibilities_sec)"

definition requirements_section :: "pystr \<Rightarrow> pystr" where
  "requirements_section text =
     (let requirements_sec = find_section text [''requirements'']
      in if requirements_sec = []
         then cue_lines (map py [''requirements'', ''must have'', ''qualifications'']) text
         else requirements_sec)"

definition extract_job_data :: "pystr \<Rightarrow> py_error + pydict" where
  "extract_job_data raw =
     (let text = clean_text raw
      in case extract_first_match TITLE_RE text of Inl e \<Rightarrow> Inl e | Inr title \<Rightarrow>
         case extract_first_match COMPANY_RE text of Inl e \<Rightarrow> Inl e | Inr company \<Rightarrow>
         case extract_first_match LOCATION_RE text of Inl e \<Rightarrow> Inl e | Inr location \<Rightarrow>
         let responsibilities_sec = responsibilities_section text;
             requirements_sec = requirements_section text;
             scope = (if requirements_sec \<noteq> [] then requirements_sec else text)
         in case extract_first_match EXPERIENCE_RE scope of Inl e \<Rightarrow> Inl e | Inr experience_required \<Rightarrow>
            case extract_first_match EDUCATION_RE scope of Inl e \<Rightarrow> Inl e | Inr education_required \<Rightarrow>
            let skills_required = find_skills (requirements_sec @ py ''\<newline>'' @ text) [];
                responsibilities = extract_bullets responsibilities_sec
            in Inr [(''title'', opt_val title),
                    (''company'', opt_val company),
                    (''skills_required'', PList skills_required),
                    (''experience_required'', opt_val experience_required),
                    (''education_required'', opt_val education_required),
                    (''responsibilities'', PList responsibilities),
                    (''location'', opt_val location),
                    (''raw_text'', PStr text)])"

section \<open>manager.py\<close>

datatype DocType = Resume | Job | Unknown

definition doc_type_name :: "DocType \<Rightarrow> pystr" where
  "doc_type_name t = (case t of Resume \<Rightarrow> py ''resume'' | Job \<Rightarrow> py ''job'' | Unknown \<Rightarrow> py ''unknown'')"

definition resume_markers :: "pystr list" where
  "resume_markers = map py
     [''resume'', ''curriculum vitae'', ''cv'', ''skills'', ''experience'', ''education'',
      ''linkedin.com/in/'']"

definition job_markers :: "pystr list" where
  "job_markers = map py
     [''job title'', ''responsibilities'', ''requirements'', ''what you'll do'',
      ''what you'll need'', ''company'', ''employer'']"

text \<open>\<^verbatim>\<open>sum(1 for m in markers if m in lower)\<close>\<close>

definition marker_score :: "pystr list \<Rightarrow> pystr \<Rightarrow> nat" where
  "marker_score markers lowered = length (filter (\<lambda>m. sublist m lowered) markers)"

text \<open>\<^verbatim>\<open>detect_file_type(file_path, text)\<close> with the text given.\<close>

definition detect_file_type :: "pystr \<Rightarrow> DocType" where
  "detect_file_type raw =
     (let normalized = clean_text raw;
          lowered = lower normalized;
          resume_score = marker_score resume_markers lowered;
          job_score = marker_score job_markers lowered
      in if resume_score = 0 \<and> job_score = 0 then Unknown
         else if resume_score \<ge> job_score then Resume
         else Job)"

definition normalized_resume :: "pydict \<Rightarrow> pydict" where
  "normalized_resume data =
     [(''name'', dict_get data ''name'' PNone),
      (''contact'', PDict
         [(''email'', dict_get data ''email'' PNone),
          (''phone'', dict_get data ''phone'' PNone),
          (''linkedin'', dict_get data ''linkedin'' PNone),
          (''github'', dict_get data ''github'' PNone)]),
      (''skills'', dict_get data ''skills'' (PList [])),
      (''education'', dict_get data ''education'' (PList [])),
      (''experience'', dict_get data ''experience'' (PList [])),
      (''projects'', dict_get data ''projects'' (PList [])),
      (''certifications'', dict_get data ''certifications'' (PList [])),
      (''raw_text'', dict_get data ''raw_text'' (PStr []))]"

definition normalized_job :: "pydict \<Rightarrow> pydict" where
  "normalized_job data =
     [(''title'', dict_get data ''title'' PNone),
      (''company'', dict_get data ''company'' PNone),
      (''location'', dict_get data ''location'' PNone),
      (''skills'', dict_get data ''skills_required'' (PList [])),
      (''requirements'', PDict
         [(''experience'', dict_get data ''experience_required'' PNone),
          (''education'', dict_get data ''education_required'' PNone)]),
      (''responsibilities'', dict_get data ''responsibilities'' (PList [])),
      (''raw_text'', dict_get data ''raw_text'' (PStr []))]"

definition parse :: "nlp_model option \<Rightarrow> pystr \<Rightarrow> py_error + pydict" where
  "parse nlp raw =
     (case detect_file_type raw of
        Resume \<Rightarrow>
          (let data = extract_resume_data nlp raw
           in Inr [(''type'', PStr (doc_type_name Resume)), (''data'', PDict data),
                   (''normalized'', PDict (normalized_resume data))])
      | Job \<Rightarrow>
          (case extract_job_data raw of
             Inl e \<Rightarrow> Inl e
           | Inr data \<Rightarrow>
               Inr [(''type'', PStr (doc_type_name Job)), (''data'', PDict data),
                    (''normalized'', PDict (normalized_job data))])
      | Unknown \<Rightarrow>
          Inr [(''type'', PStr (py ''unknown'')), (''data'', PDict []),
               (''normalized'', PDict [(''raw_text'', PStr (clean_text raw))])])"

section \<open>Specification predicates\<close>

text \<open>
  A term occurs in a text between boundaries: somewhere in the text, with no character of
  the class \<open>behind\<close> immediately before it and no character of the class \<open>ahead\<close>
  immediately after it.
\<close>

definition occurs_between :: "(cp \<Rightarrow> bool) \<Rightarrow> (cp \<Rightarrow> bool) \<Rightarrow> pystr \<Rightarrow> pystr \<Rightarrow> bool" where
  "occurs_between behind ahead term s \<longleftrightarrow>
     (\<exists>ps ss. s = ps @ term @ ss \<and> (ps = [] \<or> \<not> behind (last ps)) \<and> (ss = [] \<or> \<not> ahead (hd ss)))"

text \<open>A line that is not blank and has no white space at either end.\<close>

definition trimmed_line :: "pystr \<Rightarrow> bool" where
  "trimmed_line l \<longleftrightarrow> l \<noteq> [] \<and> strip l = l"

text \<open>
  A header line in the words of the specification: trimmed, the line is a marker phrase up
  to case, or such a phrase followed by a colon.
\<close>

definition header_line_as_claimed :: "pystr \<Rightarrow> bool" where
  "header_line_as_claimed ln \<longleftrightarrow>
     (\<exists>(h, name) \<in> set header_map.
        list_all2 ci_match h (strip ln) \<or>
        (strip ln \<noteq> [] \<and> last (strip ln) = ch CHR '':'' \<and> list_all2 ci_match h (butlast (strip ln))))"

text \<open>The end-to-end job posting of the specification, raw and cleaned.\<close>

definition job_example :: pystr where
  "job_example = py ''Job Title: Backend Engineer\<newline>Company: Acme\<newline>Requirements\<newline>3+ years of experience\<newline>Bachelor's degree''"

definition job_example_cleaned :: pystr where
  "job_example_cleaned = py ''Job Title: Backend Engineer Company: Acme Requirements 3+ years of experience Bachelor's degree''"

section \<open>Properties of cleaning\<close>

text \<open>
  A text is collapsed when each of its white-space characters is an ASCII space that is
  not followed by another white-space character.
\<close>

fun collapsed :: "pystr \<Rightarrow> bool" where
  "collapsed [] = True"
| "collapsed [c] = (isspace c \<longrightarrow> c = 32)"
| "collapsed (c # d # cs) = ((isspace c \<longrightarrow> c = 32 \<and> \<not> isspace d) \<and> collapsed (d # cs))"

lemma isspace_32: "isspace 32"
  by (simp add: isspace_def)

lemma isspace_10: "isspace 10"
  by (simp add: isspace_def)

lemma collapsed_tl: "collapsed (c # cs) \<Longrightarrow> collapsed cs"
  by (cases cs) auto

lemma collapsed_Cons_nonspace: "\<not> isspace c \<Longrightarrow> collapsed (c # cs) = collapsed cs"
  by (cases cs) auto

lemma collapsed_space_Cons:
  "collapsed cs \<Longrightarrow> cs = [] \<or> \<not> isspace (hd cs) \<Longrightarrow> collapsed (32 # cs)"
  by (cases cs) auto

lemma dropWhile_hd: "dropWhile P xs = [] \<or> \<not> P (hd (dropWhile P xs))"
  by (induction xs) auto

lemma sub_ws_hd: "s = [] \<or> \<not> isspace (hd s) \<Longrightarrow> sub_ws s = [] \<or> \<not> isspace (hd (sub_ws s))"
  by (cases s) auto

lemma collapsed_sub_ws: "collapsed (sub_ws s)"
proof (induction s rule: sub_ws.induct)
  case 1
  show ?case by simp
next
  case (2 c cs)
  show ?case
  proof (cases "isspace c")
    case True
    have "collapsed (sub_ws (dropWhile isspace cs))"
      using 2 True by simp
    moreover have "sub_ws (dropWhile isspace cs) = [] \<or> \<not> isspace (hd (sub_ws (dropWhile isspace cs)))"
      by (rule sub_ws_hd) (rule dropWhile_hd)
    ultimately show ?thesis
      using True by (simp add: collapsed_space_Cons)
  next
    case False
    then show ?thesis
      using 2 by (simp add: collapsed_Cons_nonspace)
  qed
qed

lemma collapsed_drop: "collapsed s \<Longrightarrow> collapsed (drop n s)"
proof (induction n arbitrary: s)
  case 0
  then show ?case by simp
next
  case (Suc n)
  then show ?case by (cases s) (auto dest: collapsed_tl)
qed

lemma collapsed_take: "collapsed s \<Longrightarrow> collapsed (take n s)"
proof (induction s arbitrary: n rule: collapsed.induct)
  case 1
  then show ?case by simp
next
  case (2 c)
  then show ?case by (cases n) auto
next
  case (3 c d cs)
  show ?case
  proof (cases n)
    case 0
    then show ?thesis by simp
  next
    case (Suc m)
    show ?thesis
    proof (cases m)
      case 0
      then show ?thesis using Suc 3 by simp
    next
      case (Suc k)
      have "collapsed (take m (d # cs))"
        using 3 by simp
      then show ?thesis
        using \<open>n = Suc m\<close> Suc 3 by simp
    qed
  qed
qed

lemma strip_by_eq_take_drop:
  "\<exists>i j. strip_by P s = take i (drop j s)"
proof -
  have "dropWhile P s = drop (length (takeWhile P s)) s"
    by (rule dropWhile_eq_drop)
  moreover have "rev (dropWhile P (rev t)) = take (length t - length (takeWhile P (rev t))) t" for t
    by (simp add: dropWhile_eq_drop rev_drop)
  ultimately show ?thesis
    unfolding strip_by_def by metis
qed

lemma collapsed_strip: "collapsed s \<Longrightarrow> collapsed (strip s)"
proof -
  assume c: "collapsed s"
  obtain i j where "strip s = take i (drop j s)"
    unfolding strip_def using strip_by_eq_take_drop by blast
  then show ?thesis
    using c by (simp add: collapsed_take collapsed_drop)
qed

lemma collapsed_space: "collapsed s \<Longrightarrow> c \<in> set s \<Longrightarrow> isspace c \<Longrightarrow> c = 32"
  by (induction s rule: collapsed.induct) auto

lemma sub_ws_collapsed: "collapsed s \<Longrightarrow> sub_ws s = s"
proof (induction s rule: collapsed.induct)
  case 1
  then show ?case by simp
next
  case (2 c)
  then show ?case by simp
next
  case (3 c d cs)
  then show ?case by (cases "isspace c") auto
qed

lemma replace_absent: "hd old \<notin> set s \<Longrightarrow> old \<noteq> [] \<Longrightarrow> replace old new s = s"
proof (induction s)
  case Nil
  then show ?case by simp
next
  case (Cons c cs)
  then have "\<not> prefix old (c # cs)"
    by (cases old) auto
  then show ?case using Cons by simp
qed

lemma strip_by_idem: "strip_by P (strip_by P s) = strip_by P s"
proof -
  define d where "d = dropWhile P s"
  define e where "e = dropWhile P (rev d)"
  have d: "d = [] \<or> \<not> P (hd d)"
    unfolding d_def by (rule dropWhile_hd)
  have "dropWhile P (rev e) = rev e"
  proof (cases "e = []")
    case True
    then show ?thesis by simp
  next
    case False
    have "\<exists>k. e = drop k (rev d)"
      unfolding e_def by (metis dropWhile_eq_drop)
    then obtain k where k: "e = drop k (rev d)" by blast
    with False have "last e = last (rev d)" by simp
    moreover from False k have "d \<noteq> []" by auto
    ultimately have "last e = hd d" by (simp add: last_rev)
    with d \<open>d \<noteq> []\<close> have "\<not> P (last e)" by simp
    then have "\<not> P (hd (rev e))" using False by (simp add: hd_rev)
    then show ?thesis using False by (cases "rev e") auto
  qed
  moreover have "dropWhile P e = e"
    unfolding e_def by simp
  ultimately show ?thesis
    unfolding strip_by_def d_def [symmetric] e_def [symmetric] by simp
qed

lemma collapsed_clean_text: "collapsed (clean_text x)"
  unfolding clean_text_def by (simp add: collapsed_strip collapsed_sub_ws)

lemma clean_text_no_space_but_32: "c \<in> set (clean_text x) \<Longrightarrow> isspace c \<Longrightarrow> c = 32"
  using collapsed_clean_text collapsed_space by blast

lemma clean_text_fixed: "clean_text (clean_text x) = clean_text x"
proof (cases "clean_text x = []")
  case True
  then show ?thesis by (simp add: clean_text_def)
next
  case False
  let ?r = "clean_text x"
  have no160: "160 \<notin> set ?r"
    using clean_text_no_space_but_32 [of 160 x] by (auto simp: isspace_def)
  have no13: "13 \<notin> set ?r"
    using clean_text_no_space_but_32 [of 13 x] by (auto simp: isspace_def)
  have r1: "replace [160] [32] ?r = ?r"
    using no160 by (simp add: replace_absent)
  have r2: "replace [13, 10] [10] ?r = ?r"
    using no13 by (simp add: replace_absent)
  have r3: "replace [13] [10] ?r = ?r"
    using no13 by (simp add: replace_absent)
  have r4: "sub_ws ?r = ?r"
    by (rule sub_ws_collapsed) (rule collapsed_clean_text)
  have r5: "strip ?r = ?r"
    using False unfolding clean_text_def strip_def
    by (simp add: strip_by_idem split: if_splits)
  show ?thesis
    using False r1 r2 r3 r4 r5 by (subst clean_text_def) simp
qed

section \<open>Cleaned text is a single line\<close>

lemma clean_text_no_newline: "10 \<notin> set (clean_text x)"
  using clean_text_no_space_but_32 [of 10 x] by (auto simp: isspace_def)

lemma split_on_absent: "d \<notin> set s \<Longrightarrow> split_on d s = [s]"
  by (induction s) auto

lemma strip_Nil: "strip [] = []"
  by (simp add: strip_def strip_by_def)

lemma strip_clean_text: "strip (clean_text x) = clean_text x"
  by (simp add: clean_text_def strip_Nil) (simp add: strip_def strip_by_idem)

lemma nonblank_lines_clean_text:
  "clean_text x \<noteq> [] \<Longrightarrow> nonblank_lines (clean_text x) = [clean_text x]"
  by (simp add: nonblank_lines_def split_on_absent clean_text_no_newline strip_clean_text)

lemma segment_lines_single:
  "strip t = t \<Longrightarrow> segment_lines [t] = [] \<or> segment_lines [t] = [(''body'', t)]"
  by (cases "match_header t") (auto simp: segment_lines_def seg_step_def py_def)

lemma split_sections_clean_text: "split_sections (clean_text x) = [(''body'', clean_text x)]"
proof (cases "clean_text x = []")
  case True
  then show ?thesis by (simp add: split_sections_def)
next
  case False
  have "segment_lines [clean_text x] = [] \<or> segment_lines [clean_text x] = [(''body'', clean_text x)]"
    by (rule segment_lines_single) (rule strip_clean_text)
  then show ?thesis
    using False by (auto simp: split_sections_def nonblank_lines_clean_text)
qed


section \<open>Capture groups of the job patterns\<close>

lemma rm_Seq_mem: "st'' \<in> set (rm (Seq a b) st) \<longleftrightarrow> (\<exists>st' \<in> set (rm a st). st'' \<in> set (rm b st'))"
  by auto

lemma rm_Grp_group: "st' \<in> set (rm (Grp r) st) \<Longrightarrow> snd (snd st') \<noteq> None"
  by (cases st) auto

lemma rm_Rep_group: "st' \<in> set (rm (Rep P lo hi) st) \<Longrightarrow> snd (snd st') = snd (snd st)"
  by (cases st) (auto simp: Let_def)

lemma rm_Eps_mem: "st' \<in> set (rm Eps st) \<longleftrightarrow> st' = st"
  by auto

lemma seq_Nil: "seq [] = Eps"
  by (simp add: seq_def)

lemma seq_Cons: "seq (r # rs) = Seq r (seq rs)"
  by (simp add: seq_def)

lemma label_value_group:
  "\<forall>st. \<forall>st' \<in> set (rm (label_value_re label) st). snd (snd st') \<noteq> None"
  unfolding label_value_re_def seq_Cons seq_Nil
  by (auto simp only: rm_Seq_mem rm_Eps_mem dest: rm_Grp_group)

lemma EXPERIENCE_group: "\<forall>st. \<forall>st' \<in> set (rm EXPERIENCE_RE st). snd (snd st') \<noteq> None"
  unfolding EXPERIENCE_RE_def using rm_Grp_group by blast

lemma EDUCATION_group: "\<forall>st. \<forall>st' \<in> set (rm EDUCATION_RE st). snd (snd st') \<noteq> None"
proof (intro allI ballI)
  fix st st'
  assume "st' \<in> set (rm EDUCATION_RE st)"
  then obtain s1 where s1: "s1 \<in> set (rm (Grp degree_re) st)"
      and s2: "st' \<in> set (rm (Rep (\<lambda>c. c \<noteq> ch CHR ''\<newline>'') 0 None) s1)"
    unfolding EDUCATION_RE_def seq_Cons seq_Nil
    by (auto simp only: rm_Seq_mem rm_Eps_mem)
  from s2 have "snd (snd st') = snd (snd s1)" by (rule rm_Rep_group)
  with rm_Grp_group [OF s1] show "snd (snd st') \<noteq> None" by simp
qed

lemma first_match_group:
  assumes "\<forall>st' \<in> set sts. snd (snd st') \<noteq> None"
    and "first_match bef sts = Some (g0, g1)"
  shows "g1 \<noteq> None"
proof (cases sts)
  case Nil
  with assms(2) show ?thesis by (simp add: first_match_def)
next
  case (Cons st rest)
  obtain b a g where st: "st = (b, a, g)" by (cases st) auto
  have "snd (snd st) \<noteq> None" using assms(1) Cons by simp
  with assms(2) Cons st show ?thesis by (simp add: first_match_def)
qed

lemma search_from_group:
  assumes "\<forall>st. \<forall>st' \<in> set (rm r st). snd (snd st') \<noteq> None"
  shows "re_search_from r bef aft = Some (g0, g1) \<Longrightarrow> g1 \<noteq> None"
proof (induction aft arbitrary: bef)
  case Nil
  have "\<forall>st' \<in> set (rm r (bef, [], None)). snd (snd st') \<noteq> None"
    using assms by blast
  moreover have "first_match bef (rm r (bef, [], None)) = Some (g0, g1)"
    using Nil by simp
  ultimately show ?case by (rule first_match_group)
next
  case (Cons c cs)
  have g: "\<forall>st' \<in> set (rm r (bef, c # cs, None)). snd (snd st') \<noteq> None"
    using assms by blast
  show ?case
  proof (cases "first_match bef (rm r (bef, c # cs, None))")
    case None
    with Cons show ?thesis by simp
  next
    case (Some m)
    with Cons.prems have "first_match bef (rm r (bef, c # cs, None)) = Some (g0, g1)" by simp
    then show ?thesis using first_match_group [OF g] by blast
  qed
qed

lemma extract_first_match_total:
  assumes "\<forall>st. \<forall>st' \<in> set (rm r st). snd (snd st') \<noteq> None"
  shows "\<exists>v. extract_first_match r t = Inr v"
proof (cases "re_search r t")
  case None
  then show ?thesis by (simp add: extract_first_match_def)
next
  case (Some m)
  obtain g0 g1 where m: "m = (g0, g1)" by (cases m) auto
  with Some have "g1 \<noteq> None"
    using search_from_group [OF assms] by (simp add: re_search_def)
  with Some m show ?thesis by (auto simp: extract_first_match_def)
qed

lemma TITLE_total: "\<exists>v. extract_first_match TITLE_RE t = Inr v"
  unfolding TITLE_RE_def by (rule extract_first_match_total) (rule label_value_group)

lemma COMPANY_total: "\<exists>v. extract_first_match COMPANY_RE t = Inr v"
  unfolding COMPANY_RE_def by (rule extract_first_match_total) (rule label_value_group)

lemma LOCATION_total: "\<exists>v. extract_first_match LOCATION_RE t = Inr v"
  unfolding LOCATION_RE_def by (rule extract_first_match_total) (rule label_value_group)

lemma EXPERIENCE_total: "\<exists>v. extract_first_match EXPERIENCE_RE t = Inr v"
  by (rule extract_first_match_total) (rule EXPERIENCE_group)

lemma EDUCATION_total: "\<exists>v. extract_first_match EDUCATION_RE t = Inr v"
  by (rule extract_first_match_total) (rule EDUCATION_group)

lemma extract_job_data_shape:
  "\<exists>title company location experience_required education_required.
     extract_job_data raw =
       Inr [(''title'', opt_val title),
            (''company'', opt_val company),
            (''skills_required'',
               PList (find_skills (requirements_section (clean_text raw) @ py ''\<newline>'' @ clean_text raw) [])),
            (''experience_required'', opt_val experience_required),
            (''education_required'', opt_val education_required),
            (''responsibilities'', PList (extract_bullets (responsibilities_section (clean_text raw)))),
            (''location'', opt_val location),
            (''raw_text'', PStr (clean_text raw))]"
proof -
  let ?text = "clean_text raw"
  let ?scope = "if requirements_section ?text \<noteq> [] then requirements_section ?text else ?text"
  obtain title where t: "extract_first_match TITLE_RE ?text = Inr title"
    using TITLE_total by blast
  obtain company where c: "extract_first_match COMPANY_RE ?text = Inr company"
    using COMPANY_total by blast
  obtain location where l: "extract_first_match LOCATION_RE ?text = Inr location"
    using LOCATION_total by blast
  obtain experience where x: "extract_first_match EXPERIENCE_RE ?scope = Inr experience"
    using EXPERIENCE_total by blast
  obtain education where e: "extract_first_match EDUCATION_RE ?scope = Inr education"
    using EDUCATION_total by blast
  have "extract_job_data raw =
       Inr [(''title'', opt_val title),
            (''company'', opt_val company),
            (''skills_required'',
               PList (find_skills (requirements_section ?text @ py ''\<newline>'' @ ?text) [])),
            (''experience_required'', opt_val experience),
            (''education_required'', opt_val education),
            (''responsibilities'', PList (extract_bullets (responsibilities_section ?text))),
            (''location'', opt_val location),
            (''raw_text'', PStr ?text)]"
    unfolding extract_job_data_def Let_def using t c l x e by simp
  then show ?thesis by blast
qed

section \<open>Marker scores\<close>

lemma marker_score_card:
  "distinct ms \<Longrightarrow> marker_score ms l = card {m \<in> set ms. sublist m l}"
proof -
  assume d: "distinct ms"
  have s: "{m \<in> set ms. sublist m l} = set (filter (\<lambda>m. sublist m l) ms)"
    by auto
  have "distinct (filter (\<lambda>m. sublist m l) ms)"
    using d by simp
  then have "card (set (filter (\<lambda>m. sublist m l) ms)) = length (filter (\<lambda>m. sublist m l) ms)"
    by (rule distinct_card)
  then show ?thesis unfolding s marker_score_def by (rule sym)
qed

lemma distinct_resume_markers: "distinct resume_markers"
  by (simp add: resume_markers_def py_def)

lemma distinct_job_markers: "distinct job_markers"
  by (simp add: job_markers_def py_def)

lemma detect_file_type_scores:
  "detect_file_type x =
     (if marker_score resume_markers (lower (clean_text x)) = 0 \<and>
         marker_score job_markers (lower (clean_text x)) = 0 then Unknown
      else if marker_score job_markers (lower (clean_text x))
              \<le> marker_score resume_markers (lower (clean_text x)) then Resume
      else Job)"
  by (simp add: detect_file_type_def Let_def)

lemma lower_clean_resume_company:
  "lower (clean_text (py ''resume for a company'')) = py ''resume for a company''"
  by (simp add: py_def clean_text_def strip_def strip_by_def isspace_def lower_def lower_cp_def
      isupper_def ascii_upper_def)

lemma scores_resume_company:
  "marker_score resume_markers (py ''resume for a company'') = 1"
  "marker_score job_markers (py ''resume for a company'') = 1"
  by (simp_all add: marker_score_def resume_markers_def job_markers_def py_def sublist_code)

lemma clean_text_skills_example:
  "clean_text (py ''Skills\<newline>Python,   AWS'') = py ''Skills Python, AWS''"
  by (simp add: clean_text_def py_def strip_def strip_by_def isspace_def)

section \<open>Empty input and the router\<close>

lemma clean_text_Nil: "clean_text [] = []"
  by (simp add: clean_text_def)

lemma marker_score_Nil: "[] \<notin> set ms \<Longrightarrow> marker_score ms [] = 0"
  by (induction ms) (auto simp: marker_score_def)

lemma detect_file_type_Nil: "detect_file_type [] = Unknown"
proof -
  have "[] \<notin> set resume_markers" by (simp add: resume_markers_def py_def)
  moreover have "[] \<notin> set job_markers" by (simp add: job_markers_def py_def)
  ultimately show ?thesis
    by (simp add: detect_file_type_scores clean_text_Nil lower_def marker_score_Nil)
qed

lemma parse_Nil:
  "parse nlp [] = Inr [(''type'', PStr (py ''unknown'')), (''data'', PDict []),
                       (''normalized'', PDict [(''raw_text'', PStr [])])]"
  by (simp add: parse_def detect_file_type_Nil clean_text_Nil)

lemma extract_job_data_total: "\<exists>data. extract_job_data raw = Inr data"
  using extract_job_data_shape [of raw] by blast

lemma parse_cases:
  "\<exists>data normalized.
     parse nlp x = Inr [(''type'', PStr (doc_type_name (detect_file_type x))),
                        (''data'', PDict data), (''normalized'', PDict normalized)] \<and>
     (case detect_file_type x of
        Resume \<Rightarrow> data = extract_resume_data nlp x
      | Job \<Rightarrow> extract_job_data x = Inr data
      | Unknown \<Rightarrow> data = [] \<and> normalized = [(''raw_text'', PStr (clean_text x))])"
proof (cases "detect_file_type x")
  case Resume
  then show ?thesis by (simp add: parse_def Let_def)
next
  case Job
  obtain data where "extract_job_data x = Inr data"
    using extract_job_data_total by blast
  with Job show ?thesis by (simp add: parse_def)
next
  case Unknown
  then show ?thesis by (simp add: parse_def doc_type_name_def)
qed


lemma search_Nil: "re_search r [] = first_match [] (rm r ([], [], None))"
  by (simp add: re_search_def)

lemma extract_email_Nil: "extract_email [] = None"
  by (simp add: extract_email_def findall_first_def search_Nil EMAIL_RE_def seq_Cons seq_Nil
      first_match_def)

lemma extract_phone_Nil: "extract_phone [] = None"
  by (simp add: extract_phone_def findall_first_def search_Nil PHONE_RE_def seq_Cons seq_Nil
      first_match_def)

lemma extract_linkedin_Nil: "extract_linkedin [] = None"
  by (simp add: extract_linkedin_def findall_first_def search_Nil LINKEDIN_RE_def profile_re_def
      seq_Cons seq_Nil first_match_def py_def)

lemma extract_github_Nil: "extract_github [] = None"
  by (simp add: extract_github_def findall_first_def search_Nil GITHUB_RE_def profile_re_def
      seq_Cons seq_Nil first_match_def py_def)

lemma split_sections_Nil: "split_sections [] = [(''body'', [])]"
  by (simp add: split_sections_def)

lemma sections_of_body: "kind \<noteq> ''body'' \<Longrightarrow> sections_of kind [(''body'', t)] = []"
  by (auto simp: sections_of_def)

lemma nonblank_lines_Nil: "nonblank_lines [] = []"
  by (simp add: nonblank_lines_def strip_Nil)

lemma keyword_lines_Nil: "keyword_lines keys [] = []"
  by (simp add: keyword_lines_def strip_Nil)

lemma guess_name_Nil: "guess_name [] nlp = None"
  by (simp add: guess_name_def)

lemma find_skills_Nil: "find_skills [] extra = []"
  by (simp add: find_skills_def)

lemma extract_resume_data_Nil:
  "extract_resume_data nlp [] =
     [(''name'', PNone), (''email'', PNone), (''phone'', PNone), (''education'', PList []),
      (''experience'', PList []), (''skills'', PList []), (''projects'', PList []),
      (''certifications'', PList []), (''linkedin'', PNone), (''github'', PNone),
      (''raw_text'', PStr [])]"
  unfolding extract_resume_data_def Let_def
  by (simp add: clean_text_Nil extract_email_Nil extract_phone_Nil extract_linkedin_Nil
      extract_github_Nil guess_name_Nil split_sections_Nil sections_of_body
      extract_education_def extract_experience_def extract_projects_def extract_certs_def
      keyword_lines_Nil nonblank_lines_Nil find_skills_Nil opt_val_def)

section \<open>Skill matching\<close>

lemma rm_skill_pattern:
  "rm (skill_pattern t) (bef, aft, g) \<noteq> [] \<longleftrightarrow>
     (bef = [] \<or> \<not> skill_behind (hd bef)) \<and>
     (\<exists>ss. aft = t @ ss \<and> (ss = [] \<or> \<not> skill_ahead (hd ss)))"
  by (auto simp: skill_pattern_def seq_Cons seq_Nil prefix_def)

lemma first_match_None: "first_match bef sts = None \<longleftrightarrow> sts = []"
  by (cases sts) (auto simp: first_match_def)

lemma search_from_iff:
  "re_search_from r bef aft \<noteq> None \<longleftrightarrow>
     (\<exists>ps ss. aft = ps @ ss \<and> rm r (rev ps @ bef, ss, None) \<noteq> [])"
proof (induction aft arbitrary: bef)
  case Nil
  then show ?case by (simp add: first_match_None)
next
  case (Cons c cs)
  show ?case
  proof (cases "rm r (bef, c # cs, None) = []")
    case True
    then have "re_search_from r bef (c # cs) = re_search_from r (c # bef) cs"
      by (simp add: first_match_None [THEN iffD2])
    also have "\<dots> \<noteq> None \<longleftrightarrow> (\<exists>ps ss. cs = ps @ ss \<and> rm r (rev ps @ c # bef, ss, None) \<noteq> [])"
      by (rule Cons.IH)
    also have "\<dots> \<longleftrightarrow> (\<exists>ps ss. c # cs = ps @ ss \<and> rm r (rev ps @ bef, ss, None) \<noteq> [])"
    proof
      assume "\<exists>ps ss. cs = ps @ ss \<and> rm r (rev ps @ c # bef, ss, None) \<noteq> []"
      then obtain ps ss where "cs = ps @ ss" "rm r (rev ps @ c # bef, ss, None) \<noteq> []" by blast
      then have "c # cs = (c # ps) @ ss \<and> rm r (rev (c # ps) @ bef, ss, None) \<noteq> []" by simp
      then show "\<exists>ps ss. c # cs = ps @ ss \<and> rm r (rev ps @ bef, ss, None) \<noteq> []" by blast
    next
      assume "\<exists>ps ss. c # cs = ps @ ss \<and> rm r (rev ps @ bef, ss, None) \<noteq> []"
      then obtain ps ss where p: "c # cs = ps @ ss" "rm r (rev ps @ bef, ss, None) \<noteq> []" by blast
      with True have "ps \<noteq> []" by (cases ps) auto
      then obtain ps' where "ps = c # ps'" using p(1) by (cases ps) auto
      with p have "cs = ps' @ ss \<and> rm r (rev ps' @ c # bef, ss, None) \<noteq> []" by simp
      then show "\<exists>ps ss. cs = ps @ ss \<and> rm r (rev ps @ c # bef, ss, None) \<noteq> []" by blast
    qed
    finally show ?thesis .
  next
    case False
    then have "re_search_from r bef (c # cs) \<noteq> None"
      by (cases "first_match bef (rm r (bef, c # cs, None))") (auto simp: first_match_None)
    moreover have "c # cs = [] @ (c # cs) \<and> rm r (rev [] @ bef, c # cs, None) \<noteq> []"
      using False by simp
    then have "\<exists>ps ss. c # cs = ps @ ss \<and> rm r (rev ps @ bef, ss, None) \<noteq> []" by blast
    ultimately show ?thesis by simp
  qed
qed

lemma search_skill_pattern:
  "re_search (skill_pattern t) s \<noteq> None \<longleftrightarrow> occurs_between skill_behind skill_ahead t s"
proof -
  have "re_search (skill_pattern t) s \<noteq> None \<longleftrightarrow>
        (\<exists>ps ss. s = ps @ ss \<and> rm (skill_pattern t) (rev ps, ss, None) \<noteq> [])"
    using search_from_iff [of "skill_pattern t" "[]" s] by (simp add: re_search_def)
  also have "\<dots> \<longleftrightarrow> (\<exists>ps ss'. s = ps @ t @ ss' \<and> (ps = [] \<or> \<not> skill_behind (last ps)) \<and>
                        (ss' = [] \<or> \<not> skill_ahead (hd ss')))"
    by (auto simp: rm_skill_pattern hd_rev)
  finally show ?thesis by (simp add: occurs_between_def)
qed

lemma find_skills_filter:
  "find_skills text extra =
     (if text = [] then []
      else filter (\<lambda>t. occurs_between skill_behind skill_ahead t (py '' '' @ lower text @ py '' ''))
             (sorted_list_of_set (set (map lower DEFAULT_SKILLS) \<union> set (map lower extra))))"
  unfolding find_skills_def Let_def search_skill_pattern by (rule refl)

lemma find_skills_sorted: "sorted (find_skills text extra)"
  unfolding find_skills_filter by (simp add: sorted_wrt_filter del: set_map)

lemma find_skills_distinct: "distinct (find_skills text extra)"
  by (simp add: find_skills_filter del: set_map)

lemma find_skills_set:
  "set (find_skills text extra) =
     {t \<in> set (map lower (DEFAULT_SKILLS @ extra)).
        text \<noteq> [] \<and> occurs_between skill_behind skill_ahead t (py '' '' @ lower text @ py '' '')}"
  by (auto simp: find_skills_filter)

lemma occurs_between_Nil: "t \<noteq> [] \<Longrightarrow> \<not> occurs_between behind ahead t []"
  by (simp add: occurs_between_def)

lemma occurs_between_left:
  assumes "occurs_between behind ahead t a" and "\<not> ahead c"
  shows "occurs_between behind ahead t (a @ c # b)"
proof -
  obtain ps ss where a: "a = ps @ t @ ss" and p: "ps = [] \<or> \<not> behind (last ps)"
      and s: "ss = [] \<or> \<not> ahead (hd ss)"
    using assms(1) unfolding occurs_between_def by blast
  have "a @ c # b = ps @ t @ (ss @ c # b)" using a by simp
  moreover have "ss @ c # b = [] \<or> \<not> ahead (hd (ss @ c # b))"
    using s assms(2) by (cases ss) auto
  ultimately show ?thesis unfolding occurs_between_def using p by blast
qed

lemma occurs_between_right:
  assumes "occurs_between behind ahead t b" and "\<not> behind c"
  shows "occurs_between behind ahead t (a @ c # b)"
proof -
  obtain ps ss where b: "b = ps @ t @ ss" and p: "ps = [] \<or> \<not> behind (last ps)"
      and s: "ss = [] \<or> \<not> ahead (hd ss)"
    using assms(1) unfolding occurs_between_def by blast
  have "a @ c # b = (a @ c # ps) @ t @ ss" using b by simp
  moreover have "a @ c # ps = [] \<or> \<not> behind (last (a @ c # ps))"
    using p assms(2) by auto
  ultimately show ?thesis unfolding occurs_between_def using s by blast
qed

lemma occurs_between_split:
  assumes o: "occurs_between behind ahead t (a @ c # b)" and c: "c \<notin> set t" and t: "t \<noteq> []"
  shows "occurs_between behind ahead t a \<or> occurs_between behind ahead t b"
proof -
  obtain ps ss where e: "a @ c # b = ps @ t @ ss" and p: "ps = [] \<or> \<not> behind (last ps)"
      and s: "ss = [] \<or> \<not> ahead (hd ss)"
    using o unfolding occurs_between_def by blast
  from e consider us where "a = ps @ us" "us @ c # b = t @ ss"
    | us where "a @ us = ps" "c # b = us @ t @ ss"
    by (auto simp: append_eq_append_conv2)
  then show ?thesis
  proof cases
    case 1
    from 1(2) consider vs where "us = t @ vs" "vs @ c # b = ss"
      | vs where "us @ vs = t" "c # b = vs @ ss"
      by (auto simp: append_eq_append_conv2)
    then show ?thesis
    proof cases
      case 1
      have "a = ps @ t @ vs" using \<open>a = ps @ us\<close> 1(1) by simp
      moreover have "vs = [] \<or> \<not> ahead (hd vs)"
        using s 1(2) by (cases vs) auto
      ultimately show ?thesis unfolding occurs_between_def using p by blast
    next
      case 2
      have "vs = []"
      proof (rule ccontr)
        assume "vs \<noteq> []"
        then have "hd vs = c" using 2(2) by (cases vs) auto
        with \<open>vs \<noteq> []\<close> have "c \<in> set vs" by (cases vs) auto
        with 2(1) c show False by auto
      qed
      with 2 have "a = ps @ t @ []" using \<open>a = ps @ us\<close> by simp
      then show ?thesis unfolding occurs_between_def using p by blast
    qed
  next
    case 2
    have "us \<noteq> []"
    proof
      assume "us = []"
      with 2(2) have "c # b = t @ ss" by simp
      with t have "hd t = c" by (cases t) auto
      with t c show False by (cases t) auto
    qed
    then obtain us' where us: "us = c # us'" using 2(2) by (cases us) auto
    with 2(2) have "b = us' @ t @ ss" by simp
    moreover have "us' = [] \<or> \<not> behind (last us')"
      using p 2(1) us by (cases "us' = []") auto
    ultimately show ?thesis unfolding occurs_between_def using s by blast
  qed
qed

lemma occurs_between_sep:
  assumes "c \<notin> set t" "t \<noteq> []" "\<not> behind c" "\<not> ahead c"
  shows "occurs_between behind ahead t (a @ c # b) \<longleftrightarrow>
         occurs_between behind ahead t a \<or> occurs_between behind ahead t b"
  using assms occurs_between_split occurs_between_left occurs_between_right by metis

lemma default_skills_plain:
  "\<forall>s \<in> set (map lower DEFAULT_SKILLS). s \<noteq> [] \<and> 32 \<notin> set s \<and> 10 \<notin> set s"
  by (simp add: DEFAULT_SKILLS_def py_def lower_def lower_cp_def isupper_def ascii_upper_def)

lemma space_newline_no_boundary:
  "\<not> skill_behind 32" "\<not> skill_ahead 32" "\<not> skill_behind 10" "\<not> skill_ahead 10"
  by (simp_all add: skill_behind_def skill_ahead_def is_word_def isalnum_def isalpha_def
      isdigit_def isdecimal_def ascii_alpha_def ascii_upper_def ascii_lower_def)

lemma lower_append: "lower (a @ b) = lower a @ lower b"
  by (simp add: lower_def)

lemma lower_newline: "lower (py ''\<newline>'') = py ''\<newline>''"
  by (simp add: lower_def py_def lower_cp_def isupper_def ascii_upper_def)

lemma occurs_padded:
  assumes "s \<noteq> []" "32 \<notin> set s"
  shows "occurs_between skill_behind skill_ahead s (py '' '' @ u @ py '' '') \<longleftrightarrow>
         occurs_between skill_behind skill_ahead s u"
proof -
  have "occurs_between skill_behind skill_ahead s ([] @ 32 # (u @ 32 # [])) \<longleftrightarrow>
        occurs_between skill_behind skill_ahead s [] \<or>
        occurs_between skill_behind skill_ahead s (u @ 32 # [])"
    using assms space_newline_no_boundary by (intro occurs_between_sep) auto
  also have "occurs_between skill_behind skill_ahead s (u @ 32 # []) \<longleftrightarrow>
        occurs_between skill_behind skill_ahead s u \<or> occurs_between skill_behind skill_ahead s []"
    using assms space_newline_no_boundary by (intro occurs_between_sep) auto
  finally show ?thesis
    using assms(1) by (simp add: py_def occurs_between_Nil)
qed

lemma occurs_joined:
  assumes "s \<noteq> []" "10 \<notin> set s"
  shows "occurs_between skill_behind skill_ahead s (r @ py ''\<newline>'' @ t) \<longleftrightarrow>
         occurs_between skill_behind skill_ahead s r \<or> occurs_between skill_behind skill_ahead s t"
proof -
  have "occurs_between skill_behind skill_ahead s (r @ 10 # t) \<longleftrightarrow>
        occurs_between skill_behind skill_ahead s r \<or> occurs_between skill_behind skill_ahead s t"
    using assms space_newline_no_boundary by (intro occurs_between_sep) auto
  then show ?thesis by (simp add: py_def)
qed

lemma find_skills_default:
  "find_skills text [] =
     (if text = [] then []
      else filter (\<lambda>t. occurs_between skill_behind skill_ahead t (py '' '' @ lower text @ py '' ''))
             (sorted_list_of_set (set (map lower DEFAULT_SKILLS))))"
  unfolding find_skills_filter by simp

lemma find_skills_prepend:
  assumes r: "r = [] \<or> r = t"
  shows "find_skills (r @ py ''\<newline>'' @ t) [] = find_skills t []"
proof -
  define D where "D = sorted_list_of_set (set (map lower DEFAULT_SKILLS))"
  let ?occ = "occurs_between skill_behind skill_ahead"
  have D: "\<forall>s \<in> set D. s \<noteq> [] \<and> 32 \<notin> set s \<and> 10 \<notin> set s"
    unfolding D_def using default_skills_plain by (simp del: set_map)
  have ne: "r @ py ''\<newline>'' @ t \<noteq> []" by (simp add: py_def)
  have both: "?occ s (py '' '' @ lower (r @ py ''\<newline>'' @ t) @ py '' '') \<longleftrightarrow> ?occ s (lower t)"
    if "s \<in> set D" for s
  proof -
    from that D have s: "s \<noteq> []" "32 \<notin> set s" "10 \<notin> set s" by auto
    have "?occ s (py '' '' @ lower (r @ py ''\<newline>'' @ t) @ py '' '') \<longleftrightarrow>
          ?occ s (lower r @ py ''\<newline>'' @ lower t)"
      using occurs_padded [OF s(1) s(2), of "lower r @ py ''\<newline>'' @ lower t"]
      by (simp add: lower_append lower_newline)
    also have "\<dots> \<longleftrightarrow> ?occ s (lower r) \<or> ?occ s (lower t)"
      using s(1) s(3) by (rule occurs_joined)
    also have "\<dots> \<longleftrightarrow> ?occ s (lower t)"
      using r s(1) by (auto simp: lower_def occurs_between_Nil)
    finally show ?thesis .
  qed
  have "find_skills (r @ py ''\<newline>'' @ t) [] =
        filter (\<lambda>s. ?occ s (py '' '' @ lower (r @ py ''\<newline>'' @ t) @ py '' '')) D"
    by (subst find_skills_default) (simp only: ne if_False D_def)
  also have "\<dots> = filter (\<lambda>s. ?occ s (lower t)) D"
    by (rule filter_cong [OF refl]) (rule both)
  finally have lhs: "find_skills (r @ py ''\<newline>'' @ t) [] = filter (\<lambda>s. ?occ s (lower t)) D" .
  show ?thesis
  proof (cases "t = []")
    case True
    have "\<forall>s \<in> set D. \<not> ?occ s (lower t)"
      using D True by (simp add: lower_def occurs_between_Nil)
    then have "filter (\<lambda>s. ?occ s (lower t)) D = []"
      by (simp add: filter_empty_conv)
    with lhs True show ?thesis by (simp add: find_skills_default)
  next
    case False
    have "filter (\<lambda>s. ?occ s (py '' '' @ lower t @ py '' '')) D = filter (\<lambda>s. ?occ s (lower t)) D"
    proof (rule filter_cong [OF refl])
      fix s assume "s \<in> set D"
      with D have "s \<noteq> []" "32 \<notin> set s" by auto
      then show "?occ s (py '' '' @ lower t @ py '' '') = ?occ s (lower t)"
        by (rule occurs_padded)
    qed
    with lhs False show ?thesis unfolding find_skills_default D_def by simp
  qed
qed

lemma find_section_clean_text:
  "''body'' \<notin> set names \<Longrightarrow> find_section (clean_text x) names = []"
  by (simp add: find_section_def split_sections_clean_text)

lemma cue_lines_clean_text:
  "cue_lines keys (clean_text x) = [] \<or> cue_lines keys (clean_text x) = clean_text x"
  by (simp add: cue_lines_def split_on_absent clean_text_no_newline)

lemma requirements_section_clean_text:
  "requirements_section (clean_text x) = [] \<or> requirements_section (clean_text x) = clean_text x"
  using cue_lines_clean_text [of _ x]
  by (simp add: requirements_section_def find_section_clean_text)

lemma job_skills_whole_text:
  "find_skills (requirements_section (clean_text x) @ py ''\<newline>'' @ clean_text x) [] =
   find_skills (clean_text x) []"
  by (rule find_skills_prepend) (rule requirements_section_clean_text)

section \<open>The skill dictionary, evaluated\<close>

lemma lower_default_skills: "map lower DEFAULT_SKILLS = DEFAULT_SKILLS"
  by (simp add: DEFAULT_SKILLS_def py_def lower_def lower_cp_def isupper_def ascii_upper_def)

lemma sorted_default_skills:
  "sorted_list_of_set (set DEFAULT_SKILLS) = map py
     [''angular'', ''aws'', ''azure'', ''c#'', ''c++'', ''django'', ''docker'', ''fastapi'', ''flask'', ''gcp'', ''git'', ''go'', ''java'', ''javascript'', ''kubernetes'', ''nltk'', ''node'', ''numpy'', ''pandas'', ''python'', ''pytorch'', ''rails'', ''react'', ''ruby'', ''rust'', ''scala'', ''scikit-learn'', ''spacy'', ''spring'', ''sql'', ''tensorflow'', ''terraform'', ''typescript'', ''vue'']"
  by (simp add: sorted_list_of_set_sort_remdups DEFAULT_SKILLS_def py_def)

lemma find_skills_default_sorted:
  "find_skills text [] =
     (if text = [] then []
      else filter (\<lambda>skill. re_search (skill_pattern skill) (py '' '' @ lower text @ py '' '') \<noteq> None)
        (map py
     [''angular'', ''aws'', ''azure'', ''c#'', ''c++'', ''django'', ''docker'', ''fastapi'', ''flask'', ''gcp'', ''git'', ''go'', ''java'', ''javascript'', ''kubernetes'', ''nltk'', ''node'', ''numpy'', ''pandas'', ''python'', ''pytorch'', ''rails'', ''react'', ''ruby'', ''rust'', ''scala'', ''scikit-learn'', ''spacy'', ''spring'', ''sql'', ''tensorflow'', ''terraform'', ''typescript'', ''vue'']))"
  unfolding find_skills_def Let_def
  by (simp only: list.map set_simps Un_empty_right lower_default_skills sorted_default_skills)

lemmas char_class_defs = skill_behind_def skill_ahead_def is_word_def isalnum_def isalpha_def
  isdigit_def isdecimal_def ascii_alpha_def ascii_upper_def ascii_lower_def isupper_def
  lower_def lower_cp_def isspace_def

lemma skills_python_thrice: "find_skills (py ''Python PYTHON python'') [] = [py ''python'']"
  by (simp add: find_skills_default_sorted py_def re_search_def skill_pattern_def seq_Cons seq_Nil
      first_match_def char_class_defs)

lemmas skill_eval = find_skills_default_sorted py_def re_search_def skill_pattern_def seq_Cons
  seq_Nil first_match_def char_class_defs

lemma skills_go_sentence: "find_skills (py ''I code in Go.'') [] = [py ''go'']"
  by (simp add: skill_eval)

lemma skills_going: "find_skills (py ''I am going home'') [] = []"
  by (simp add: skill_eval)

lemma skills_c: "find_skills (py ''c++ and c#'') [] = [py ''c#'', py ''c++'']"
  by (simp add: skill_eval)

lemma skills_go_plus: "find_skills (py ''go+'') [] = []"
  by (simp add: skill_eval)

lemma go_occurs_spec:
  "occurs_between (\<lambda>c. is_word c \<or> c = ch CHR ''+'' \<or> c = ch CHR ''#'' \<or> c = ch CHR ''.'')
     (\<lambda>c. is_word c \<or> c = ch CHR ''-'') (py ''go'') (lower (py ''go+''))"
proof -
  have "lower (py ''go+'') = [] @ py ''go'' @ py ''+''"
    by (simp add: py_def char_class_defs)
  moreover have "\<not> (is_word (hd (py ''+'')) \<or> hd (py ''+'') = ch CHR ''-'')"
    by (simp add: py_def char_class_defs)
  ultimately show ?thesis
    unfolding occurs_between_def by blast
qed

lemma go_default: "py ''go'' \<in> set (map lower DEFAULT_SKILLS)"
  by (simp add: lower_default_skills) (simp add: DEFAULT_SKILLS_def)

section \<open>Shapes and defaults of the parser outputs\<close>

lemma detect_resume_company: "detect_file_type (py ''resume for a company'') = Resume"
  by (simp add: detect_file_type_scores lower_clean_resume_company scores_resume_company)

lemma extract_resume_data_shape:
  "\<exists>name email phone linkedin github education experience skills projects certifications.
     extract_resume_data nlp raw =
       [(''name'', opt_val name), (''email'', opt_val email), (''phone'', opt_val phone),
        (''education'', PList education), (''experience'', PList experience),
        (''skills'', PList skills), (''projects'', PList projects),
        (''certifications'', PList certifications), (''linkedin'', opt_val linkedin),
        (''github'', opt_val github), (''raw_text'', PStr (clean_text raw))]"
  unfolding extract_resume_data_def Let_def by (intro exI) (rule refl)

lemma extract_first_match_Nil:
  "extract_first_match TITLE_RE [] = Inr None"
  "extract_first_match COMPANY_RE [] = Inr None"
  "extract_first_match LOCATION_RE [] = Inr None"
  "extract_first_match EXPERIENCE_RE [] = Inr None"
  "extract_first_match EDUCATION_RE [] = Inr None"
  by (simp_all add: extract_first_match_def search_Nil first_match_def TITLE_RE_def COMPANY_RE_def
      LOCATION_RE_def EXPERIENCE_RE_def EDUCATION_RE_def degree_re_def label_value_re_def
      seq_Cons seq_Nil py_def)

lemma cue_lines_Nil: "[] \<notin> set keys \<Longrightarrow> cue_lines keys [] = []"
proof -
  assume "[] \<notin> set keys"
  then have "\<not> list_ex (\<lambda>k. sublist k []) keys"
    by (induction keys) auto
  then show ?thesis by (simp add: cue_lines_def lower_def)
qed

lemma find_section_Nil: "find_section [] [name] = []"
  by (simp add: find_section_def split_sections_Nil)

lemma responsibilities_section_Nil: "responsibilities_section [] = []"
  by (simp add: responsibilities_section_def find_section_Nil cue_lines_Nil py_def)

lemma requirements_section_Nil: "requirements_section [] = []"
  by (simp add: requirements_section_def find_section_Nil cue_lines_Nil py_def)

lemma extract_bullets_Nil: "extract_bullets [] = []"
  by (simp add: extract_bullets_def strip_Nil)

lemma extract_job_data_Nil:
  "extract_job_data [] =
     Inr [(''title'', PNone), (''company'', PNone), (''skills_required'', PList []),
          (''experience_required'', PNone), (''education_required'', PNone),
          (''responsibilities'', PList []), (''location'', PNone), (''raw_text'', PStr [])]"
proof -
  have "find_skills (requirements_section (clean_text []) @ py ''\<newline>'' @ clean_text []) [] = []"
    unfolding job_skills_whole_text by (simp add: clean_text_Nil find_skills_Nil)
  then have "find_skills (py ''\<newline>'') [] = []"
    by (simp add: clean_text_Nil requirements_section_Nil)
  then show ?thesis
    unfolding extract_job_data_def Let_def
    by (simp add: clean_text_Nil extract_first_match_Nil responsibilities_section_Nil
        requirements_section_Nil extract_bullets_Nil opt_val_def)
qed

section \<open>Terms that do not begin or end with a space\<close>

lemma occurs_padded_ends:
  assumes t: "t \<noteq> []" "hd t \<noteq> 32" "last t \<noteq> 32" and b: "\<not> behind 32" "\<not> ahead 32"
  shows "occurs_between behind ahead t (py '' '' @ u @ py '' '') \<longleftrightarrow> occurs_between behind ahead t u"
proof
  assume "occurs_between behind ahead t u"
  then have "occurs_between behind ahead t (u @ 32 # [])"
    using b(2) by (rule occurs_between_left)
  then have "occurs_between behind ahead t ([] @ 32 # (u @ 32 # []))"
    using b(1) by (rule occurs_between_right)
  then show "occurs_between behind ahead t (py '' '' @ u @ py '' '')"
    by (simp add: py_def)
next
  assume "occurs_between behind ahead t (py '' '' @ u @ py '' '')"
  then obtain ps ss where e: "32 # u @ [32] = ps @ t @ ss"
      and p: "ps = [] \<or> \<not> behind (last ps)" and s: "ss = [] \<or> \<not> ahead (hd ss)"
    unfolding occurs_between_def by (auto simp: py_def)
  have "ps \<noteq> []"
  proof
    assume "ps = []"
    with e t(1) have "hd t = 32" by (cases t) auto
    with t(2) show False by simp
  qed
  then obtain ps' where ps: "ps = 32 # ps'" using e by (cases ps) auto
  with e have e': "u @ [32] = ps' @ t @ ss" by simp
  have "ss \<noteq> []"
  proof
    assume "ss = []"
    with e' have "u @ [32] = ps' @ t" by simp
    then have "last (ps' @ t) = 32" by (metis last_snoc)
    with t(1) t(3) show False by simp
  qed
  have "last (u @ [32]) = last (ps' @ t @ ss)" using e' by simp
  with \<open>ss \<noteq> []\<close> have "last ss = 32" by simp
  with \<open>ss \<noteq> []\<close> have ss: "ss = butlast ss @ [32]" by (metis append_butlast_last_id)
  define ss' where "ss' = butlast ss"
  have ss2: "ss = ss' @ [32]" using ss ss'_def by simp
  have "u @ [32] = (ps' @ t @ ss') @ [32]" using e' ss2 by simp
  then have u: "u = ps' @ t @ ss'" by (simp only: append1_eq_conv)
  have "ps' = [] \<or> \<not> behind (last ps')" using p ps by (cases "ps' = []") auto
  moreover have "ss' = [] \<or> \<not> ahead (hd ss')" using s ss2 by (cases ss') auto
  ultimately show "occurs_between behind ahead t u"
    unfolding occurs_between_def using u by blast
qed

lemma lower_cp_space: "lower_cp c = 32 \<longleftrightarrow> c = 32"
  by (auto simp: lower_cp_def isupper_def ascii_upper_def)

lemma lower_ends:
  assumes "t \<noteq> []" "hd t \<noteq> 32" "last t \<noteq> 32"
  shows "lower t \<noteq> [] \<and> hd (lower t) \<noteq> 32 \<and> last (lower t) \<noteq> 32"
  using assms by (simp add: lower_def hd_map last_map lower_cp_space)

lemma default_skills_ends:
  "s \<in> set DEFAULT_SKILLS \<Longrightarrow> s \<noteq> [] \<and> hd s \<noteq> 32 \<and> last s \<noteq> 32"
proof -
  assume "s \<in> set DEFAULT_SKILLS"
  then have "s \<in> set (map lower DEFAULT_SKILLS)" by (simp only: lower_default_skills)
  with default_skills_plain have "s \<noteq> [] \<and> 32 \<notin> set s" by blast
  then show ?thesis by (metis hd_in_set last_in_set)
qed

lemma find_skills_set_unpadded:
  assumes "\<forall>t \<in> set extra. t \<noteq> [] \<and> hd t \<noteq> 32 \<and> last t \<noteq> 32"
  shows "set (find_skills text extra) =
     {t \<in> set (map lower (DEFAULT_SKILLS @ extra)).
        occurs_between skill_behind skill_ahead t (lower text)}"
proof -
  have ends: "t \<noteq> [] \<and> hd t \<noteq> 32 \<and> last t \<noteq> 32" if "t \<in> set (map lower (DEFAULT_SKILLS @ extra))" for t
  proof -
    from that have "t \<in> lower ` (set DEFAULT_SKILLS \<union> set extra)" by (simp add: image_Un)
    then obtain t0 where t0: "t0 \<in> set DEFAULT_SKILLS \<union> set extra" "t = lower t0" by (rule imageE)
    have "t0 \<noteq> [] \<and> hd t0 \<noteq> 32 \<and> last t0 \<noteq> 32"
    proof (cases "t0 \<in> set DEFAULT_SKILLS")
      case True
      then show ?thesis by (rule default_skills_ends)
    next
      case False
      with t0(1) have "t0 \<in> set extra" by simp
      with assms show ?thesis by (rule bspec)
    qed
    then have "lower t0 \<noteq> [] \<and> hd (lower t0) \<noteq> 32 \<and> last (lower t0) \<noteq> 32"
      by (intro lower_ends) simp_all
    with t0(2) show ?thesis by simp
  qed
  have pad: "occurs_between skill_behind skill_ahead t (py '' '' @ lower text @ py '' '') \<longleftrightarrow>
             occurs_between skill_behind skill_ahead t (lower text)"
    if "t \<in> set (map lower (DEFAULT_SKILLS @ extra))" for t
  proof (rule occurs_padded_ends)
    show "t \<noteq> []" "hd t \<noteq> 32" "last t \<noteq> 32" using ends [OF that] by simp_all
    show "\<not> skill_behind 32" "\<not> skill_ahead 32" by (rule space_newline_no_boundary)+
  qed
  have empty: "\<not> occurs_between skill_behind skill_ahead t (lower [])"
    if "t \<in> set (map lower (DEFAULT_SKILLS @ extra))" for t
    using ends [OF that] by (simp add: lower_def occurs_between_Nil)
  show ?thesis
    unfolding find_skills_set
  proof (intro Collect_cong conj_cong refl)
    fix t
    assume t: "t \<in> set (map lower (DEFAULT_SKILLS @ extra))"
    show "(text \<noteq> [] \<and> occurs_between skill_behind skill_ahead t (py '' '' @ lower text @ py '' '')) =
          occurs_between skill_behind skill_ahead t (lower text)"
    proof (cases "text = []")
      case True
      with empty [OF t] show ?thesis by simp
    next
      case False
      with pad [OF t] show ?thesis by simp
    qed
  qed
qed

section \<open>The parsers on the examples\<close>

lemma bullets_dash_example:
  "extract_bullets (py ''- Design APIs\<newline>We are a small team'') =
     [py ''Design APIs'', py ''We are a small team'']"
  by (simp add: extract_bullets_def strip_chars_def strip_def strip_by_def bullet_strip_def
      str_isdigit_def py_def char_class_defs)

lemma bullets_star_example:
  "extract_bullets (py ''* Design APIs\<newline>We are a small team'') = [py ''* Design APIs'']"
  by (simp add: extract_bullets_def strip_chars_def strip_def strip_by_def bullet_strip_def
      str_isdigit_def py_def char_class_defs)

lemma bullets_numbered_example:
  "extract_bullets (py ''1. Design APIs\<newline>We are a small team'') =
     [py ''1. Design APIs'', py ''We are a small team'']"
  by (simp add: extract_bullets_def strip_chars_def strip_def strip_by_def bullet_strip_def
      str_isdigit_def py_def char_class_defs)

lemma clean_job_example: "clean_text job_example = job_example_cleaned"
  by (simp add: job_example_def job_example_cleaned_def clean_text_def py_def strip_def
      strip_by_def isspace_def)

lemmas re_eval = extract_first_match_def re_search_def first_match_def consumed_def
  label_value_re_def seq_Cons seq_Nil py_def ci_match_def char_class_defs strip_def strip_by_def

lemma title_job_example:
  "extract_first_match TITLE_RE job_example_cleaned =
     Inr (Some (py ''Backend Engineer Company: Acme Requirements 3+ years of experience Bachelor's degree''))"
  by (simp add: job_example_cleaned_def TITLE_RE_def re_eval)

lemma company_job_example:
  "extract_first_match COMPANY_RE job_example_cleaned =
     Inr (Some (py ''Acme Requirements 3+ years of experience Bachelor's degree''))"
  by (simp add: job_example_cleaned_def COMPANY_RE_def re_eval)

lemma location_job_example:
  "extract_first_match LOCATION_RE job_example_cleaned = Inr None"
  by (simp add: job_example_cleaned_def LOCATION_RE_def re_eval)

lemma experience_job_example:
  "extract_first_match EXPERIENCE_RE job_example_cleaned =
     Inr (Some (py ''3+ years of experience Bachelor's degree''))"
  by (simp add: job_example_cleaned_def EXPERIENCE_RE_def re_eval)

lemma education_job_example:
  "extract_first_match EDUCATION_RE job_example_cleaned = Inr (Some (py ''Ba''))"
  by (simp add: job_example_cleaned_def EDUCATION_RE_def degree_re_def re_eval)

lemma lower_job_example:
  "lower job_example_cleaned = py ''job title: backend engineer company: acme requirements 3+ years of experience bachelor's degree''"
  by (simp add: job_example_cleaned_def py_def char_class_defs)

lemma requirements_job_example:
  "requirements_section (clean_text job_example) = job_example_cleaned"
proof -
  have "sublist (py ''requirements'') (lower job_example_cleaned)"
    unfolding lower_job_example by (simp add: py_def sublist_code)
  then show ?thesis
    unfolding requirements_section_def Let_def
    by (simp add: find_section_clean_text cue_lines_def split_on_absent clean_text_no_newline)
       (simp add: clean_job_example)
qed

lemma responsibilities_job_example:
  "responsibilities_section (clean_text job_example) = []"
proof -
  have "\<not> list_ex (\<lambda>k. sublist k (lower job_example_cleaned))
          (map py [''responsibilities'', ''you will'', ''you'll''])"
    unfolding lower_job_example by (simp add: py_def sublist_code)
  then show ?thesis
    unfolding responsibilities_section_def Let_def
    by (simp add: find_section_clean_text cue_lines_def split_on_absent clean_text_no_newline)
       (simp add: clean_job_example)
qed

lemma skills_job_example: "find_skills job_example_cleaned [] = []"
  by (simp add: job_example_cleaned_def skill_eval)

section \<open>What the patterns match\<close>

lemma le_takeWhile_iff:
  "n \<le> length (takeWhile P xs) \<longleftrightarrow> n \<le> length xs \<and> (\<forall>c \<in> set (take n xs). P c)"
proof (induction xs arbitrary: n)
  case Nil
  then show ?case by simp
next
  case (Cons x xs)
  then show ?case by (cases n) auto
qed

lemma rm_Rep_mem:
  "st' \<in> set (rm (Rep P lo hi) (bef, aft, g)) \<longleftrightarrow>
     (\<exists>w rest. aft = w @ rest \<and> (\<forall>c \<in> set w. P c) \<and> lo \<le> length w \<and>
        (case hi of None \<Rightarrow> True | Some h \<Rightarrow> length w \<le> h) \<and> st' = (rev w @ bef, rest, g))"
proof
  assume "st' \<in> set (rm (Rep P lo hi) (bef, aft, g))"
  then obtain n where n: "lo \<le> n"
      "n \<le> (case hi of None \<Rightarrow> length (takeWhile P aft) | Some h \<Rightarrow> min h (length (takeWhile P aft)))"
      "st' = (rev (take n aft) @ bef, drop n aft, g)"
    by (auto simp: Let_def)
  from n(2) have le: "n \<le> length (takeWhile P aft)" and hi: "case hi of None \<Rightarrow> True | Some h \<Rightarrow> n \<le> h"
    by (auto split: option.splits)
  from le have "n \<le> length aft" "\<forall>c \<in> set (take n aft). P c"
    by (simp_all add: le_takeWhile_iff)
  then have "aft = take n aft @ drop n aft \<and> (\<forall>c \<in> set (take n aft). P c) \<and> lo \<le> length (take n aft) \<and>
        (case hi of None \<Rightarrow> True | Some h \<Rightarrow> length (take n aft) \<le> h) \<and>
        st' = (rev (take n aft) @ bef, drop n aft, g)"
    using n(1,3) hi by (auto split: option.splits)
  then show "\<exists>w rest. aft = w @ rest \<and> (\<forall>c \<in> set w. P c) \<and> lo \<le> length w \<and>
        (case hi of None \<Rightarrow> True | Some h \<Rightarrow> length w \<le> h) \<and> st' = (rev w @ bef, rest, g)"
    by blast
next
  assume "\<exists>w rest. aft = w @ rest \<and> (\<forall>c \<in> set w. P c) \<and> lo \<le> length w \<and>
        (case hi of None \<Rightarrow> True | Some h \<Rightarrow> length w \<le> h) \<and> st' = (rev w @ bef, rest, g)"
  then obtain w rest where w: "aft = w @ rest" "\<forall>c \<in> set w. P c" "lo \<le> length w"
      "case hi of None \<Rightarrow> True | Some h \<Rightarrow> length w \<le> h" "st' = (rev w @ bef, rest, g)"
    by blast
  let ?n = "length w"
  have "?n \<le> length (takeWhile P aft)"
    using w(1,2) by (simp add: le_takeWhile_iff)
  then have "?n \<in> set (rev [lo..<Suc (case hi of None \<Rightarrow> length (takeWhile P aft)
                                   | Some h \<Rightarrow> min h (length (takeWhile P aft)))])"
    using w(3,4) by (auto split: option.splits)
  moreover have "st' = (rev (take ?n aft) @ bef, drop ?n aft, g)"
    using w(1,5) by simp
  ultimately show "st' \<in> set (rm (Rep P lo hi) (bef, aft, g))"
    by (auto simp: Let_def simp del: upt_Suc)
qed

lemma rm_LitI_mem:
  "st' \<in> set (rm (LitI l) (bef, aft, g)) \<longleftrightarrow>
     (\<exists>l' rest. aft = l' @ rest \<and> list_all2 ci_match l l' \<and> st' = (rev l' @ bef, rest, g))"
proof
  assume "st' \<in> set (rm (LitI l) (bef, aft, g))"
  then have "length l \<le> length aft" "list_all2 ci_match l (take (length l) aft)"
      "st' = (rev (take (length l) aft) @ bef, drop (length l) aft, g)"
    by (auto split: if_splits)
  then have "aft = take (length l) aft @ drop (length l) aft \<and>
      list_all2 ci_match l (take (length l) aft) \<and>
      st' = (rev (take (length l) aft) @ bef, drop (length l) aft, g)"
    by simp
  then show "\<exists>l' rest. aft = l' @ rest \<and> list_all2 ci_match l l' \<and> st' = (rev l' @ bef, rest, g)"
    by blast
next
  assume "\<exists>l' rest. aft = l' @ rest \<and> list_all2 ci_match l l' \<and> st' = (rev l' @ bef, rest, g)"
  then obtain l' rest where l: "aft = l' @ rest" "list_all2 ci_match l l'" "st' = (rev l' @ bef, rest, g)"
    by blast
  from l(2) have len: "length l = length l'" by (rule list_all2_lengthD)
  with l show "st' \<in> set (rm (LitI l) (bef, aft, g))" by simp
qed

lemma rm_Bol_mem: "st' \<in> set (rm Bol (bef, aft, g)) \<longleftrightarrow> bef = [] \<and> st' = (bef, aft, g)"
  by auto

lemma rm_Eol_mem:
  "st' \<in> set (rm Eol (bef, aft, g)) \<longleftrightarrow> (aft = [] \<or> aft = [10]) \<and> st' = (bef, aft, g)"
  by auto

lemma re_match_iff: "re_match r s \<noteq> None \<longleftrightarrow> (\<exists>st'. st' \<in> set (rm r ([], s, None)))"
  by (cases "rm r ([], s, None)") (auto simp: re_match_def first_match_def)

lemma colon_opt: "(\<forall>c \<in> set w. c = ch CHR '':'') \<and> length w \<le> 1 \<longleftrightarrow> w = [] \<or> w = py '':''"
proof (cases w)
  case Nil
  then show ?thesis by simp
next
  case (Cons a as)
  then show ?thesis by (cases as) (auto simp: py_def)
qed

lemma header_tail_mem:
  "st' \<in> set (rm (seq [Rep isspace 0 None, Rep (\<lambda>c. c = ch CHR '':'') 0 (Some 1), Eol]) (bef, aft, g)) \<longleftrightarrow>
     (\<exists>w2 col nl. aft = w2 @ col @ nl \<and> (\<forall>c \<in> set w2. isspace c) \<and>
        (col = [] \<or> col = py '':'') \<and> (nl = [] \<or> nl = py ''\<newline>'') \<and>
        st' = (rev col @ rev w2 @ bef, nl, g))"
proof
  assume "st' \<in> set (rm (seq [Rep isspace 0 None, Rep (\<lambda>c. c = ch CHR '':'') 0 (Some 1), Eol]) (bef, aft, g))"
  then obtain s1 s2 where s1: "s1 \<in> set (rm (Rep isspace 0 None) (bef, aft, g))"
      and s2: "s2 \<in> set (rm (Rep (\<lambda>c. c = ch CHR '':'') 0 (Some 1)) s1)"
      and s3: "st' \<in> set (rm Eol s2)"
    unfolding seq_Cons seq_Nil rm_Seq_mem rm_Eps_mem by blast
  from s1 obtain w2 r1 where w2: "aft = w2 @ r1" "\<forall>c \<in> set w2. isspace c" "s1 = (rev w2 @ bef, r1, g)"
    unfolding rm_Rep_mem by auto
  from s2 obtain col r2 where col: "r1 = col @ r2" "(\<forall>c \<in> set col. c = ch CHR '':'') \<and> length col \<le> 1"
      "s2 = (rev col @ rev w2 @ bef, r2, g)"
    unfolding w2(3) rm_Rep_mem by auto
  from s3 have e: "r2 = [] \<or> r2 = [10]" "st' = (rev col @ rev w2 @ bef, r2, g)"
    unfolding col(3) rm_Eol_mem by auto
  have "aft = w2 @ col @ r2" using w2(1) col(1) by simp
  moreover have "col = [] \<or> col = py '':''" using col(2) by (simp only: colon_opt)
  moreover have "r2 = [] \<or> r2 = py ''\<newline>''" using e(1) by (simp add: py_def)
  ultimately show "\<exists>w2 col nl. aft = w2 @ col @ nl \<and> (\<forall>c \<in> set w2. isspace c) \<and>
        (col = [] \<or> col = py '':'') \<and> (nl = [] \<or> nl = py ''\<newline>'') \<and>
        st' = (rev col @ rev w2 @ bef, nl, g)"
    using w2(2) e(2) by blast
next
  assume "\<exists>w2 col nl. aft = w2 @ col @ nl \<and> (\<forall>c \<in> set w2. isspace c) \<and>
        (col = [] \<or> col = py '':'') \<and> (nl = [] \<or> nl = py ''\<newline>'') \<and>
        st' = (rev col @ rev w2 @ bef, nl, g)"
  then obtain w2 col nl where a: "aft = w2 @ col @ nl" "\<forall>c \<in> set w2. isspace c"
      "col = [] \<or> col = py '':''" "nl = [] \<or> nl = py ''\<newline>''"
      "st' = (rev col @ rev w2 @ bef, nl, g)"
    by blast
  have c: "(\<forall>c \<in> set col. c = ch CHR '':'') \<and> length col \<le> 1"
    using a(3) by (simp only: colon_opt)
  have 1: "(rev w2 @ bef, col @ nl, g) \<in> set (rm (Rep isspace 0 None) (bef, aft, g))"
    unfolding rm_Rep_mem using a(1,2) by auto
  have 2: "(rev col @ rev w2 @ bef, nl, g) \<in> set (rm (Rep (\<lambda>c. c = ch CHR '':'') 0 (Some 1)) (rev w2 @ bef, col @ nl, g))"
    unfolding rm_Rep_mem using c by auto
  have 3: "st' \<in> set (rm Eol (rev col @ rev w2 @ bef, nl, g))"
    unfolding rm_Eol_mem using a(4,5) by (auto simp: py_def)
  show "st' \<in> set (rm (seq [Rep isspace 0 None, Rep (\<lambda>c. c = ch CHR '':'') 0 (Some 1), Eol]) (bef, aft, g))"
    unfolding seq_Cons seq_Nil rm_Seq_mem rm_Eps_mem using 1 2 3 by blast
qed

lemma header_head_mem:
  "st' \<in> set (rm (seq [Bol, Rep isspace 0 None, LitI h]) ([], ln, g)) \<longleftrightarrow>
     (\<exists>w1 h' rest. ln = w1 @ h' @ rest \<and> (\<forall>c \<in> set w1. isspace c) \<and> list_all2 ci_match h h' \<and>
        st' = (rev h' @ rev w1, rest, g))"
proof
  assume "st' \<in> set (rm (seq [Bol, Rep isspace 0 None, LitI h]) ([], ln, g))"
  then obtain s1 s2 where s1: "s1 \<in> set (rm Bol ([], ln, g))"
      and s2: "s2 \<in> set (rm (Rep isspace 0 None) s1)"
      and s3: "st' \<in> set (rm (LitI h) s2)"
    unfolding seq_Cons seq_Nil rm_Seq_mem rm_Eps_mem by blast
  from s1 have s1': "s1 = ([], ln, g)" unfolding rm_Bol_mem by simp
  from s2 obtain w1 r1 where w1: "ln = w1 @ r1" "\<forall>c \<in> set w1. isspace c" "s2 = (rev w1, r1, g)"
    unfolding s1' rm_Rep_mem by auto
  from s3 obtain h' rest where h': "r1 = h' @ rest" "list_all2 ci_match h h'" "st' = (rev h' @ rev w1, rest, g)"
    unfolding w1(3) rm_LitI_mem by auto
  have "ln = w1 @ h' @ rest" using w1(1) h'(1) by simp
  then show "\<exists>w1 h' rest. ln = w1 @ h' @ rest \<and> (\<forall>c \<in> set w1. isspace c) \<and> list_all2 ci_match h h' \<and>
        st' = (rev h' @ rev w1, rest, g)"
    using w1(2) h'(2,3) by blast
next
  assume "\<exists>w1 h' rest. ln = w1 @ h' @ rest \<and> (\<forall>c \<in> set w1. isspace c) \<and> list_all2 ci_match h h' \<and>
        st' = (rev h' @ rev w1, rest, g)"
  then obtain w1 h' rest where a: "ln = w1 @ h' @ rest" "\<forall>c \<in> set w1. isspace c"
      "list_all2 ci_match h h'" "st' = (rev h' @ rev w1, rest, g)"
    by blast
  have 1: "([], ln, g) \<in> set (rm Bol ([], ln, g))"
    unfolding rm_Bol_mem by simp
  have 2: "(rev w1, h' @ rest, g) \<in> set (rm (Rep isspace 0 None) ([], ln, g))"
    unfolding rm_Rep_mem using a(1,2) by auto
  have 3: "st' \<in> set (rm (LitI h) (rev w1, h' @ rest, g))"
    unfolding rm_LitI_mem using a(3,4) by auto
  show "st' \<in> set (rm (seq [Bol, Rep isspace 0 None, LitI h]) ([], ln, g))"
    unfolding seq_Cons seq_Nil rm_Seq_mem rm_Eps_mem using 1 2 3 by blast
qed

lemma rm_seq_append:
  "st'' \<in> set (rm (seq (rs @ ts)) st) \<longleftrightarrow> (\<exists>st' \<in> set (rm (seq rs) st). st'' \<in> set (rm (seq ts) st'))"
proof (induction rs arbitrary: st)
  case Nil
  then show ?case by (simp add: seq_Nil)
next
  case (Cons r rs)
  show ?case
    using Cons.IH by (auto simp: seq_Cons)
qed

lemma header_pattern_match:
  "re_match (header_pattern h) ln \<noteq> None \<longleftrightarrow>
     (\<exists>w1 h' w2 col nl. ln = w1 @ h' @ w2 @ col @ nl \<and> (\<forall>c \<in> set w1. isspace c) \<and>
        list_all2 ci_match h h' \<and> (\<forall>c \<in> set w2. isspace c) \<and>
        (col = [] \<or> col = py '':'') \<and> (nl = [] \<or> nl = py ''\<newline>''))"
proof -
  have split: "header_pattern h =
      seq ([Bol, Rep isspace 0 None, LitI h] @
           [Rep isspace 0 None, Rep (\<lambda>c. c = ch CHR '':'') 0 (Some 1), Eol])"
    by (simp add: header_pattern_def)
  show ?thesis
  proof
    assume "re_match (header_pattern h) ln \<noteq> None"
    then obtain st' s1 where s1: "s1 \<in> set (rm (seq [Bol, Rep isspace 0 None, LitI h]) ([], ln, None))"
        and s2: "st' \<in> set (rm (seq [Rep isspace 0 None, Rep (\<lambda>c. c = ch CHR '':'') 0 (Some 1), Eol]) s1)"
      unfolding re_match_iff split rm_seq_append by blast
    from s1 obtain w1 h' rest where a: "ln = w1 @ h' @ rest" "\<forall>c \<in> set w1. isspace c"
        "list_all2 ci_match h h'" "s1 = (rev h' @ rev w1, rest, None)"
      unfolding header_head_mem by blast
    from s2 obtain w2 col nl where b: "rest = w2 @ col @ nl" "\<forall>c \<in> set w2. isspace c"
        "col = [] \<or> col = py '':''" "nl = [] \<or> nl = py ''\<newline>''"
      unfolding a(4) header_tail_mem by blast
    have "ln = w1 @ h' @ w2 @ col @ nl" using a(1) b(1) by simp
    then show "\<exists>w1 h' w2 col nl. ln = w1 @ h' @ w2 @ col @ nl \<and> (\<forall>c \<in> set w1. isspace c) \<and>
        list_all2 ci_match h h' \<and> (\<forall>c \<in> set w2. isspace c) \<and>
        (col = [] \<or> col = py '':'') \<and> (nl = [] \<or> nl = py ''\<newline>'')"
      using a(2,3) b(2,3,4) by blast
  next
    assume "\<exists>w1 h' w2 col nl. ln = w1 @ h' @ w2 @ col @ nl \<and> (\<forall>c \<in> set w1. isspace c) \<and>
        list_all2 ci_match h h' \<and> (\<forall>c \<in> set w2. isspace c) \<and>
        (col = [] \<or> col = py '':'') \<and> (nl = [] \<or> nl = py ''\<newline>'')"
    then obtain w1 h' w2 col nl where a: "ln = w1 @ h' @ w2 @ col @ nl" "\<forall>c \<in> set w1. isspace c"
        "list_all2 ci_match h h'" "\<forall>c \<in> set w2. isspace c"
        "col = [] \<or> col = py '':''" "nl = [] \<or> nl = py ''\<newline>''"
      by blast
    have 1: "(rev h' @ rev w1, w2 @ col @ nl, None) \<in> set (rm (seq [Bol, Rep isspace 0 None, LitI h]) ([], ln, None))"
      unfolding header_head_mem using a(1,2,3) by blast
    have 2: "(rev col @ rev w2 @ rev h' @ rev w1, nl, None) \<in>
        set (rm (seq [Rep isspace 0 None, Rep (\<lambda>c. c = ch CHR '':'') 0 (Some 1), Eol]) (rev h' @ rev w1, w2 @ col @ nl, None))"
      unfolding header_tail_mem using a(4,5,6) by blast
    show "re_match (header_pattern h) ln \<noteq> None"
      unfolding re_match_iff split rm_seq_append using 1 2 by blast
  qed
qed

lemma strip_by_ends:
  "strip_by P t = [] \<or> (\<not> P (hd (strip_by P t)) \<and> \<not> P (last (strip_by P t)))"
proof -
  define d where "d = dropWhile P t"
  define e where "e = dropWhile P (rev d)"
  have r: "strip_by P t = rev e" by (simp add: strip_by_def d_def e_def)
  show ?thesis
  proof (cases "e = []")
    case True
    with r show ?thesis by simp
  next
    case False
    have "e = [] \<or> \<not> P (hd e)" unfolding e_def by (rule dropWhile_hd)
    with False have "\<not> P (hd e)" by blast
    then have l: "\<not> P (last (rev e))" using False by (simp add: last_rev)
    obtain k where k: "e = drop k (rev d)"
      unfolding e_def by (metis dropWhile_eq_drop)
    with False have "last e = last (rev d)" by simp
    moreover from False k have "d \<noteq> []" by auto
    ultimately have "last e = hd d" by (simp add: last_rev)
    moreover have "d = [] \<or> \<not> P (hd d)" unfolding d_def by (rule dropWhile_hd)
    then have "\<not> P (hd d)" using \<open>d \<noteq> []\<close> by blast
    ultimately have "\<not> P (hd (rev e))" using False by (simp add: hd_rev)
    with l r show ?thesis by simp
  qed
qed

lemma strip_by_fixed:
  assumes "t \<noteq> []" "\<not> P (hd t)" "\<not> P (last t)"
  shows "strip_by P t = t"
proof -
  have "dropWhile P t = t" using assms(1,2) by (cases t) auto
  moreover have "dropWhile P (rev t) = rev t"
    using assms(1,3) by (cases "rev t") (auto simp: hd_rev)
  ultimately show ?thesis by (simp add: strip_by_def)
qed

lemma strip_ends: "strip t = [] \<or> (\<not> isspace (hd (strip t)) \<and> \<not> isspace (last (strip t)))"
  unfolding strip_def by (rule strip_by_ends)

lemma strip_strip: "strip (strip t) = strip t"
  unfolding strip_def by (rule strip_by_idem)

lemma match_header_iff:
  "match_header t \<noteq> None \<longleftrightarrow> (\<exists>(h, name) \<in> set header_map. re_match (header_pattern h) t \<noteq> None)"
  unfolding match_header_def by (auto simp: find_None_iff)

lemma header_pattern_trimmed:
  assumes t: "strip t = t"
  shows "re_match (header_pattern h) t \<noteq> None \<longleftrightarrow>
     (\<exists>h' ws colon. t = h' @ ws @ colon \<and> list_all2 ci_match h h' \<and>
        (\<forall>c \<in> set ws. isspace c) \<and> (colon = [] \<or> colon = py '':''))"
proof
  assume "re_match (header_pattern h) t \<noteq> None"
  then obtain w1 h' w2 col nl where a: "t = w1 @ h' @ w2 @ col @ nl" "\<forall>c \<in> set w1. isspace c"
      "list_all2 ci_match h h'" "\<forall>c \<in> set w2. isspace c"
      "col = [] \<or> col = py '':''" "nl = [] \<or> nl = py ''\<newline>''"
    unfolding header_pattern_match by blast
  have ends: "t = [] \<or> (\<not> isspace (hd t) \<and> \<not> isspace (last t))"
    using strip_ends [of t] t by simp
  have "w1 = []"
  proof (rule ccontr)
    assume "w1 \<noteq> []"
    then have "t \<noteq> []" "hd t = hd w1" "hd w1 \<in> set w1" using a(1) by auto
    with a(2) ends show False by auto
  qed
  moreover have "nl = []"
  proof (rule ccontr)
    assume "nl \<noteq> []"
    with a(6) have "nl = [10]" by (simp add: py_def)
    with a(1) have "t \<noteq> []" "last t = 10" by auto
    with ends isspace_10 show False by auto
  qed
  ultimately have "t = h' @ w2 @ col" using a(1) by simp
  then show "\<exists>h' ws colon. t = h' @ ws @ colon \<and> list_all2 ci_match h h' \<and>
        (\<forall>c \<in> set ws. isspace c) \<and> (colon = [] \<or> colon = py '':'')"
    using a(3,4,5) by blast
next
  assume "\<exists>h' ws colon. t = h' @ ws @ colon \<and> list_all2 ci_match h h' \<and>
        (\<forall>c \<in> set ws. isspace c) \<and> (colon = [] \<or> colon = py '':'')"
  then obtain h' ws colon where a: "t = h' @ ws @ colon" "list_all2 ci_match h h'"
      "\<forall>c \<in> set ws. isspace c" "colon = [] \<or> colon = py '':''"
    by blast
  have "t = [] @ h' @ ws @ colon @ [] \<and> (\<forall>c \<in> set ([] :: pystr). isspace c) \<and>
      list_all2 ci_match h h' \<and> (\<forall>c \<in> set ws. isspace c) \<and>
      (colon = [] \<or> colon = py '':'') \<and> (([] :: pystr) = [] \<or> [] = py ''\<newline>'')"
    using a by simp
  then show "re_match (header_pattern h) t \<noteq> None"
    unfolding header_pattern_match by blast
qed

lemma header_line_iff:
  "match_header (strip ln) \<noteq> None \<longleftrightarrow>
     (\<exists>(h, name) \<in> set header_map. \<exists>h' ws colon.
        strip ln = h' @ ws @ colon \<and> list_all2 ci_match h h' \<and>
        (\<forall>c \<in> set ws. isspace c) \<and> (colon = [] \<or> colon = py '':''))"
  unfolding match_header_iff
  by (simp only: header_pattern_trimmed [OF strip_strip])

section \<open>The segmenter loop\<close>

lemma seg_step_plain:
  "match_header ln = None \<Longrightarrow> seg_step (secs, name, cur) ln = (secs, name, cur @ [ln])"
  by (simp add: seg_step_def)

lemma seg_step_header:
  "match_header ln = Some (m, kind) \<Longrightarrow>
   seg_step (secs, name, cur) ln = (fst (flush (secs, name, cur)), kind, [])"
  by (simp add: seg_step_def)

lemma foldl_seg_plain:
  "\<forall>l \<in> set body. match_header l = None \<Longrightarrow>
   foldl seg_step (secs, name, cur) body = (secs, name, cur @ body)"
proof (induction body arbitrary: cur)
  case Nil
  then show ?case by simp
next
  case (Cons l body)
  then have "foldl seg_step (secs, name, cur @ [l]) body = (secs, name, (cur @ [l]) @ body)"
    by simp
  with Cons.prems show ?case by (simp add: seg_step_plain)
qed

lemma segment_lines_snoc_section:
  assumes h: "match_header hd_line = Some (m, kind)"
    and plain: "\<forall>l \<in> set body. match_header l = None" and ne: "body \<noteq> []"
  shows "segment_lines (before @ hd_line # body) =
         segment_lines before @ [(kind, strip (join (py ''\<newline>'') body))]"
proof -
  obtain secs name cur where st: "foldl seg_step ([], ''body'', []) before = (secs, name, cur)"
    by (cases "foldl seg_step ([], ''body'', []) before") auto
  have "foldl seg_step ([], ''body'', []) (before @ hd_line # body) =
        foldl seg_step (seg_step (secs, name, cur) hd_line) body"
    by (simp add: st)
  also have "\<dots> = foldl seg_step (fst (flush (secs, name, cur)), kind, []) body"
    by (simp only: seg_step_header [OF h])
  also have "\<dots> = (fst (flush (secs, name, cur)), kind, [] @ body)"
    using plain by (rule foldl_seg_plain)
  finally have "segment_lines (before @ hd_line # body) =
      fst (flush (fst (flush (secs, name, cur)), kind, body))"
    by (simp add: segment_lines_def)
  also have "\<dots> = fst (flush (secs, name, cur)) @ [(kind, strip (join (py ''\<newline>'') body))]"
    using ne by simp
  finally show ?thesis by (simp add: segment_lines_def st)
qed

lemma segment_lines_plain:
  assumes plain: "\<forall>l \<in> set body. match_header l = None" and ne: "body \<noteq> []"
  shows "segment_lines body = [(''body'', strip (join (py ''\<newline>'') body))]"
proof -
  have "foldl seg_step ([], ''body'', []) body = ([], ''body'', [] @ body)"
    using plain by (rule foldl_seg_plain)
  then show ?thesis using ne by (simp add: segment_lines_def)
qed

lemma flush_flush: "fst (flush (fst (flush st), name, [])) = fst (flush st)"
  by (cases st) simp

lemma segment_lines_adjacent_headers:
  assumes h1: "match_header h1 \<noteq> None" and h2: "match_header h2 \<noteq> None"
  shows "segment_lines (before @ h1 # h2 # after) = segment_lines (before @ h2 # after)"
proof -
  obtain m1 k1 where 1: "match_header h1 = Some (m1, k1)" using h1 by auto
  obtain m2 k2 where 2: "match_header h2 = Some (m2, k2)" using h2 by auto
  obtain secs name cur where st: "foldl seg_step ([], ''body'', []) before = (secs, name, cur)"
    by (cases "foldl seg_step ([], ''body'', []) before") auto
  have "seg_step (seg_step (secs, name, cur) h1) h2 = seg_step (secs, name, cur) h2"
    by (simp only: seg_step_header [OF 1] seg_step_header [OF 2] flush_flush)
  then have "foldl seg_step ([], ''body'', []) (before @ h1 # h2 # after) =
             foldl seg_step ([], ''body'', []) (before @ h2 # after)"
    by (simp add: st)
  then show ?thesis by (simp add: segment_lines_def)
qed

lemma join_ends:
  assumes "ls \<noteq> []" and "\<forall>l \<in> set ls. l \<noteq> [] \<and> \<not> P (hd l) \<and> \<not> P (last l)"
  shows "join sep ls \<noteq> [] \<and> \<not> P (hd (join sep ls)) \<and> \<not> P (last (join sep ls))"
  using assms
proof (induction sep ls rule: join.induct)
  case (1 sep)
  then show ?case by simp
next
  case (2 sep x)
  then show ?case by simp
next
  case (3 sep x y ys)
  then have "join sep (y # ys) \<noteq> [] \<and> \<not> P (last (join sep (y # ys)))" by simp
  moreover have "x \<noteq> [] \<and> \<not> P (hd x)" using 3(3) by simp
  ultimately show ?case by simp
qed

lemma trimmed_line_ends:
  "trimmed_line l \<Longrightarrow> l \<noteq> [] \<and> \<not> isspace (hd l) \<and> \<not> isspace (last l)"
  using strip_ends [of l] by (auto simp: trimmed_line_def)

lemma strip_join_trimmed:
  assumes "ls \<noteq> []" and "\<forall>l \<in> set ls. trimmed_line l"
  shows "strip (join sep ls) = join sep ls \<and> join sep ls \<noteq> []"
proof -
  have "\<forall>l \<in> set ls. l \<noteq> [] \<and> \<not> isspace (hd l) \<and> \<not> isspace (last l)"
    using assms(2) trimmed_line_ends by blast
  with assms(1) have "join sep ls \<noteq> [] \<and> \<not> isspace (hd (join sep ls)) \<and> \<not> isspace (last (join sep ls))"
    by (rule join_ends)
  then show ?thesis unfolding strip_def by (simp add: strip_by_fixed)
qed

lemma nonblank_lines_trimmed: "l \<in> set (nonblank_lines text) \<Longrightarrow> trimmed_line l"
  by (auto simp: nonblank_lines_def strip_strip trimmed_line_def)

lemma flush_nonempty:
  assumes "\<forall>s \<in> set secs. snd s \<noteq> []" and "\<forall>l \<in> set cur. trimmed_line l"
  shows "\<forall>s \<in> set (fst (flush (secs, name, cur))). snd s \<noteq> []"
proof (cases "cur = []")
  case True
  with assms(1) show ?thesis by simp
next
  case False
  then have "strip (join (py ''\<newline>'') cur) \<noteq> []"
    using strip_join_trimmed [OF False assms(2)] by simp
  with assms(1) False show ?thesis by simp
qed

lemma foldl_seg_nonempty:
  assumes "\<forall>l \<in> set lns. trimmed_line l"
    and "\<forall>s \<in> set secs. snd s \<noteq> []" and "\<forall>l \<in> set cur. trimmed_line l"
    and "foldl seg_step (secs, name, cur) lns = (secs', name', cur')"
  shows "(\<forall>s \<in> set secs'. snd s \<noteq> []) \<and> (\<forall>l \<in> set cur'. trimmed_line l)"
  using assms
proof (induction lns arbitrary: secs name cur)
  case Nil
  then show ?case by simp
next
  case (Cons ln lns)
  have rest: "\<forall>l \<in> set lns. trimmed_line l" and ln: "trimmed_line ln"
    using Cons.prems(1) by simp_all
  show ?case
  proof (cases "match_header ln")
    case None
    have "foldl seg_step (secs, name, cur @ [ln]) lns = (secs', name', cur')"
      using Cons.prems(4) by (simp add: seg_step_plain [OF None])
    moreover have "\<forall>l \<in> set (cur @ [ln]). trimmed_line l"
      using Cons.prems(3) ln by simp
    ultimately show ?thesis
      using rest Cons.prems(2) by (intro Cons.IH [of secs "cur @ [ln]" name])
  next
    case (Some mk)
    obtain m kind where mk: "mk = (m, kind)" by (cases mk) auto
    have h: "match_header ln = Some (m, kind)" using Some mk by simp
    have "foldl seg_step (fst (flush (secs, name, cur)), kind, []) lns = (secs', name', cur')"
      using Cons.prems(4) by (simp add: seg_step_header [OF h])
    moreover have "\<forall>s \<in> set (fst (flush (secs, name, cur))). snd s \<noteq> []"
      using Cons.prems(2,3) by (rule flush_nonempty)
    moreover have "\<forall>l \<in> set ([] :: pystr list). trimmed_line l" by simp
    ultimately show ?thesis
      using rest by (intro Cons.IH [of "fst (flush (secs, name, cur))" "[]" kind])
  qed
qed

lemma segment_lines_nonempty:
  assumes "\<forall>l \<in> set lns. trimmed_line l"
  shows "\<forall>s \<in> set (segment_lines lns). snd s \<noteq> []"
proof -
  obtain secs name cur where st: "foldl seg_step ([], ''body'', []) lns = (secs, name, cur)"
    by (cases "foldl seg_step ([], ''body'', []) lns") auto
  have "(\<forall>s \<in> set secs. snd s \<noteq> []) \<and> (\<forall>l \<in> set cur. trimmed_line l)"
    using assms _ _ st by (rule foldl_seg_nonempty) simp_all
  then have "\<forall>s \<in> set (fst (flush (secs, name, cur))). snd s \<noteq> []"
    using flush_nonempty by blast
  then show ?thesis by (simp only: segment_lines_def st)
qed

lemma split_sections_nonempty:
  assumes "nonblank_lines text \<noteq> []"
  shows "\<forall>s \<in> set (split_sections text). snd s \<noteq> []"
proof -
  have t: "text \<noteq> []"
    using assms by (auto simp: nonblank_lines_def strip_Nil)
  have "\<forall>s \<in> set (segment_lines (nonblank_lines text)). snd s \<noteq> []"
    using nonblank_lines_trimmed by (intro segment_lines_nonempty) blast
  then show ?thesis
    using assms t by (simp add: split_sections_def Let_def)
qed

lemma join_Cons_Cons: "join sep ((c # l) # ls) = c # join sep (l # ls)"
  by (cases ls) simp_all

lemma split_on_nonempty: "split_on d s \<noteq> []"
  by (induction s) (auto split: list.splits)

lemma join_split_on: "join [d] (split_on d s) = s"
proof (induction s)
  case Nil
  show ?case by simp
next
  case (Cons c cs)
  obtain l ls where r: "split_on d cs = l # ls"
    using split_on_nonempty [of d cs] by (cases "split_on d cs") auto
  with Cons show ?case by (simp add: join_Cons_Cons)
qed

lemma nonblank_lines_all_trimmed:
  assumes "\<forall>l \<in> set (split_on 10 s). trimmed_line l"
  shows "nonblank_lines s = split_on 10 s"
proof -
  have "filter (\<lambda>ln. strip ln \<noteq> []) (split_on 10 s) = split_on 10 s"
    using assms by (auto simp: filter_id_conv trimmed_line_def)
  moreover have "map strip (split_on 10 s) = split_on 10 s"
    using assms by (auto simp: map_idI trimmed_line_def)
  ultimately show ?thesis by (simp add: nonblank_lines_def)
qed

lemma split_sections_plain_trimmed:
  assumes "\<forall>l \<in> set (split_on (ch CHR ''\<newline>'') s). trimmed_line l \<and> match_header l = None"
  shows "split_sections s = [(''body'', s)]"
proof -
  let ?ls = "split_on 10 s"
  have a: "\<forall>l \<in> set ?ls. trimmed_line l" and h: "\<forall>l \<in> set ?ls. match_header l = None"
    using assms by simp_all
  have ne: "?ls \<noteq> []" by (rule split_on_nonempty)
  have t: "s \<noteq> []"
  proof
    assume "s = []"
    then have "[] \<in> set ?ls" by simp
    with a show False by (auto simp: trimmed_line_def)
  qed
  have nb: "nonblank_lines s = ?ls"
    using a by (rule nonblank_lines_all_trimmed)
  have "segment_lines ?ls = [(''body'', strip (join (py ''\<newline>'') ?ls))]"
    using h ne by (rule segment_lines_plain)
  moreover have "strip (join (py ''\<newline>'') ?ls) = join (py ''\<newline>'') ?ls"
    using strip_join_trimmed [OF ne a] by blast
  moreover have "join (py ''\<newline>'') ?ls = s"
    using join_split_on [of 10 s] by (simp add: py_def)
  ultimately have "segment_lines ?ls = [(''body'', s)]" by simp
  then show ?thesis
    using t ne by (simp add: split_sections_def nb)
qed

section \<open>The segmenter on examples\<close>

lemmas header_eval = match_header_def header_map_def SECTION_HEADERS_def re_match_def
  header_pattern_def first_match_def seq_Cons seq_Nil py_def ci_match_def char_class_defs

lemma match_header_skills_colon:
  "match_header (py ''Skills :'') = Some (py ''skills'', ''skills'')"
  by (simp add: header_eval)

lemma match_header_skills: "match_header (py ''Skills'') = Some (py ''skills'', ''skills'')"
  by (simp add: header_eval)

lemma match_header_education:
  "match_header (py ''Education'') = Some (py ''education'', ''education'')"
  by (simp add: header_eval)

lemma match_header_plain:
  "match_header (py ''Python, AWS'') = None"
  "match_header (py ''John Smith'') = None"
  "match_header (py ''Python'') = None"
  "match_header (py ''a'') = None"
  "match_header (py ''b'') = None"
  by (simp_all add: header_eval)

lemma strip_examples:
  "strip (py ''Skills :'') = py ''Skills :''"
  "strip (py ''John Smith'') = py ''John Smith''"
  "strip (py ''Python'') = py ''Python''"
  "strip (py ''Python, AWS'') = py ''Python, AWS''"
  by (simp_all add: strip_def strip_by_def py_def isspace_def)

lemma not_claimed_skills_colon: "\<not> header_line_as_claimed (py ''Skills :'')"
  unfolding header_line_as_claimed_def strip_examples
  by (simp add: header_map_def SECTION_HEADERS_def py_def ci_match_def char_class_defs)

lemma split_sections_blank_line:
  "split_sections (py ''a\<newline>\<newline>b'') = [(''body'', py ''a\<newline>b'')]"
proof -
  have n: "nonblank_lines (py ''a\<newline>\<newline>b'') = [py ''a'', py ''b'']"
    by (simp add: nonblank_lines_def strip_def strip_by_def py_def isspace_def)
  have "segment_lines [py ''a'', py ''b''] = [(''body'', strip (join (py ''\<newline>'') [py ''a'', py ''b'']))]"
    by (rule segment_lines_plain) (simp_all add: match_header_plain)
  also have "strip (join (py ''\<newline>'') [py ''a'', py ''b'']) = py ''a\<newline>b''"
    by (simp add: strip_def strip_by_def py_def isspace_def)
  finally show ?thesis
    by (simp add: split_sections_def n) (simp add: py_def)
qed

section \<open>Claims\<close>

text \<open>
  C1. For every input text, the router returns a dictionary with the keys type, data and
  normalized, where type is the classifier's result on the text; for a resume, data is
  exactly what the resume extractor returns on the text; for a job, data is exactly what
  the job extractor returns; for an unknown document, data is the empty dictionary and
  normalized holds the cleaned text under \<open>raw_text\<close>. The empty text is unknown, with
  empty data and an empty \<open>raw_text\<close>.
\<close>

theorem C1_router_projects_extractors:
  "(\<exists>data normalized.
      parse nlp x = Inr [(''type'', PStr (doc_type_name (detect_file_type x))),
                         (''data'', PDict data), (''normalized'', PDict normalized)] \<and>
      (case detect_file_type x of
         Resume \<Rightarrow> data = extract_resume_data nlp x
       | Job \<Rightarrow> extract_job_data x = Inr data
       | Unknown \<Rightarrow> data = [] \<and> normalized = [(''raw_text'', PStr (clean_text x))])) \<and>
   parse nlp [] = Inr [(''type'', PStr (py ''unknown'')), (''data'', PDict []),
                       (''normalized'', PDict [(''raw_text'', PStr [])])]"
proof
  show "\<exists>data normalized.
      parse nlp x = Inr [(''type'', PStr (doc_type_name (detect_file_type x))),
                         (''data'', PDict data), (''normalized'', PDict normalized)] \<and>
      (case detect_file_type x of
         Resume \<Rightarrow> data = extract_resume_data nlp x
       | Job \<Rightarrow> extract_job_data x = Inr data
       | Unknown \<Rightarrow> data = [] \<and> normalized = [(''raw_text'', PStr (clean_text x))])"
    by (rule parse_cases)
next
  show "parse nlp [] = Inr [(''type'', PStr (py ''unknown'')), (''data'', PDict []),
                            (''normalized'', PDict [(''raw_text'', PStr [])])]"
    by (rule parse_Nil)
qed

theorem C1_witness:
  "\<exists>normalized.
     parse None (py ''resume for a company'') =
       Inr [(''type'', PStr (py ''resume'')),
            (''data'', PDict (extract_resume_data None (py ''resume for a company''))),
            (''normalized'', PDict normalized)]"
  using C1_router_projects_extractors [of None "py ''resume for a company''"]
  by (auto simp: detect_resume_company doc_type_name_def)

text \<open>
  C2. For every text, with resumeScore the number of resume markers that are substrings
  of the lower-cased cleaned text (a marker counts once) and jobScore the same over the
  job markers: the type is Unknown when both scores are zero, Resume on a tie, and the
  type of the higher score otherwise. In particular one resume marker and one job marker
  give Resume.
\<close>

theorem C2_classification_by_marker_scores:
  "let lowered = lower (clean_text x);
       resumeScore = card {m \<in> set resume_markers. sublist m lowered};
       jobScore = card {m \<in> set job_markers. sublist m lowered}
   in detect_file_type x =
        (if resumeScore = 0 \<and> jobScore = 0 then Unknown
         else if resumeScore = jobScore then Resume
         else if jobScore < resumeScore then Resume
         else Job) \<and>
      (resumeScore = 1 \<and> jobScore = 1 \<longrightarrow> detect_file_type x = Resume)"
proof -
  let ?l = "lower (clean_text x)"
  define rs where "rs = marker_score resume_markers ?l"
  define js where "js = marker_score job_markers ?l"
  have r: "card {m \<in> set resume_markers. sublist m ?l} = rs"
    unfolding rs_def by (rule sym, rule marker_score_card) (rule distinct_resume_markers)
  have j: "card {m \<in> set job_markers. sublist m ?l} = js"
    unfolding js_def by (rule sym, rule marker_score_card) (rule distinct_job_markers)
  have d: "detect_file_type x =
      (if rs = 0 \<and> js = 0 then Unknown else if js \<le> rs then Resume else Job)"
    unfolding rs_def js_def by (rule detect_file_type_scores)
  have "detect_file_type x =
        (if rs = 0 \<and> js = 0 then Unknown
         else if rs = js then Resume
         else if js < rs then Resume
         else Job) \<and>
      (rs = 1 \<and> js = 1 \<longrightarrow> detect_file_type x = Resume)"
    unfolding d by auto
  then show ?thesis
    unfolding Let_def r j .
qed

theorem C2_witness:
  "card {m \<in> set resume_markers. sublist m (lower (clean_text (py ''resume for a company'')))} = 1 \<and>
   card {m \<in> set job_markers. sublist m (lower (clean_text (py ''resume for a company'')))} = 1 \<and>
   detect_file_type (py ''resume for a company'') = Resume"
proof -
  let ?l = "lower (clean_text (py ''resume for a company''))"
  have r: "card {m \<in> set resume_markers. sublist m ?l} = 1"
    using marker_score_card [OF distinct_resume_markers, of ?l] scores_resume_company(1)
    unfolding lower_clean_resume_company by simp
  have j: "card {m \<in> set job_markers. sublist m ?l} = 1"
    using marker_score_card [OF distinct_job_markers, of ?l] scores_resume_company(2)
    unfolding lower_clean_resume_company by simp
  have "card {m \<in> set resume_markers. sublist m ?l} = 1 \<and>
        card {m \<in> set job_markers. sublist m ?l} = 1 \<longrightarrow>
        detect_file_type (py ''resume for a company'') = Resume"
    using C2_classification_by_marker_scores [of "py ''resume for a company''"]
    unfolding Let_def by (rule conjunct2)
  with r j show ?thesis by blast
qed

text \<open>
  C3, as the code has it. A trimmed line is a header iff it is, case-insensitively, a
  configured marker phrase, then optional white space, then an optional colon, and
  nothing else. Lines that are not headers accumulate in the current section, which is
  \<open>body\<close> before the first header; a section is emitted only when lines have
  accumulated, so a header directly followed by a header emits nothing for the first,
  and no emitted section has an empty text. If the lines of the text are all non-blank
  and trimmed and none is a header, the entire text is returned as a single \<open>body\<close>
  section. The empty text yields a single \<open>body\<close> section with empty text.
\<close>

theorem C3_segmenter:
  "(match_header (strip ln) \<noteq> None \<longleftrightarrow>
      (\<exists>(h, name) \<in> set header_map. \<exists>h' ws colon.
         strip ln = h' @ ws @ colon \<and> list_all2 ci_match h h' \<and>
         (\<forall>c \<in> set ws. isspace c) \<and> (colon = [] \<or> colon = py '':''))) \<and>
   (match_header header = Some (phrase, kind) \<and> (\<forall>l \<in> set body. match_header l = None) \<and>
      body \<noteq> [] \<longrightarrow>
    segment_lines (before @ header # body) =
      segment_lines before @ [(kind, strip (join (py ''\<newline>'') body))]) \<and>
   ((\<forall>l \<in> set body. match_header l = None) \<and> body \<noteq> [] \<longrightarrow>
    segment_lines body = [(''body'', strip (join (py ''\<newline>'') body))]) \<and>
   (match_header h1 \<noteq> None \<and> match_header h2 \<noteq> None \<longrightarrow>
    segment_lines (before @ h1 # h2 # after) = segment_lines (before @ h2 # after)) \<and>
   (nonblank_lines txt \<noteq> [] \<and> segment_lines (nonblank_lines txt) \<noteq> [] \<longrightarrow>
    split_sections txt = segment_lines (nonblank_lines txt)) \<and>
   (nonblank_lines txt \<noteq> [] \<longrightarrow> (\<forall>s \<in> set (split_sections txt). snd s \<noteq> [])) \<and>
   ((\<forall>l \<in> set (split_on (ch CHR ''\<newline>'') txt). trimmed_line l \<and> match_header l = None) \<longrightarrow>
    split_sections txt = [(''body'', txt)]) \<and>
   split_sections [] = [(''body'', [])]"
proof (intro conjI impI)
  show "match_header (strip ln) \<noteq> None \<longleftrightarrow>
      (\<exists>(h, name) \<in> set header_map. \<exists>h' ws colon.
         strip ln = h' @ ws @ colon \<and> list_all2 ci_match h h' \<and>
         (\<forall>c \<in> set ws. isspace c) \<and> (colon = [] \<or> colon = py '':''))"
    by (rule header_line_iff)
next
  assume "match_header header = Some (phrase, kind) \<and> (\<forall>l \<in> set body. match_header l = None) \<and>
      body \<noteq> []"
  then show "segment_lines (before @ header # body) =
      segment_lines before @ [(kind, strip (join (py ''\<newline>'') body))]"
    using segment_lines_snoc_section by blast
next
  assume "(\<forall>l \<in> set body. match_header l = None) \<and> body \<noteq> []"
  then show "segment_lines body = [(''body'', strip (join (py ''\<newline>'') body))]"
    using segment_lines_plain by blast
next
  assume "match_header h1 \<noteq> None \<and> match_header h2 \<noteq> None"
  then show "segment_lines (before @ h1 # h2 # after) = segment_lines (before @ h2 # after)"
    using segment_lines_adjacent_headers by blast
next
  assume a: "nonblank_lines txt \<noteq> [] \<and> segment_lines (nonblank_lines txt) \<noteq> []"
  then have "txt \<noteq> []"
    by (auto simp: nonblank_lines_Nil)
  with a show "split_sections txt = segment_lines (nonblank_lines txt)"
    by (simp add: split_sections_def)
next
  assume "nonblank_lines txt \<noteq> []"
  then show "\<forall>s \<in> set (split_sections txt). snd s \<noteq> []"
    by (rule split_sections_nonempty)
next
  assume "\<forall>l \<in> set (split_on (ch CHR ''\<newline>'') txt). trimmed_line l \<and> match_header l = None"
  then show "split_sections txt = [(''body'', txt)]"
    by (rule split_sections_plain_trimmed)
next
  show "split_sections [] = [(''body'', [])]"
    by (rule split_sections_Nil)
qed

theorem C3_witness:
  "match_header (strip (py ''Skills :'')) \<noteq> None \<and>
   segment_lines [py ''Skills'', py ''Python, AWS''] = [(''skills'', py ''Python, AWS'')] \<and>
   segment_lines [py ''Python, AWS''] = [(''body'', py ''Python, AWS'')] \<and>
   segment_lines [py ''Skills'', py ''Education'', py ''Python''] =
     segment_lines [py ''Education'', py ''Python''] \<and>
   split_sections (py ''John Smith\<newline>Python'') = [(''body'', py ''John Smith\<newline>Python'')] \<and>
   list_all (\<lambda>s. snd s \<noteq> []) (split_sections (py ''John Smith\<newline>Python''))"
proof -
  note inst = C3_segmenter [of "py ''Skills :''" "py ''Skills''" "py ''skills''" "''skills''"
      "[py ''Python, AWS'']" "[]" "py ''Skills''" "py ''Education''" "[py ''Python'']"
      "py ''John Smith\<newline>Python''"]
  have lines: "split_on (ch CHR ''\<newline>'') (py ''John Smith\<newline>Python'') = [py ''John Smith'', py ''Python'']"
    by (simp add: py_def)
  have nb: "nonblank_lines (py ''John Smith\<newline>Python'') = [py ''John Smith'', py ''Python'']"
    unfolding nonblank_lines_def lines by (simp add: strip_examples) (simp add: py_def)
  have tr: "trimmed_line (py ''John Smith'')" "trimmed_line (py ''Python'')"
    unfolding trimmed_line_def strip_examples by (simp_all add: py_def)
  have st: "strip (join (py ''\<newline>'') [py ''Python, AWS'']) = py ''Python, AWS''"
    by (simp add: strip_examples)
  have sl: "segment_lines [] = []"
    by (simp add: segment_lines_def)
  have "(py ''skills'', ''skills'') \<in> set header_map"
    by (simp add: header_map_def SECTION_HEADERS_def)
  moreover have "strip (py ''Skills :'') = py ''Skills'' @ py '' '' @ py '':''"
    unfolding strip_examples by (simp add: py_def)
  moreover have "list_all2 ci_match (py ''skills'') (py ''Skills'')"
    by (simp add: py_def ci_match_def char_class_defs)
  moreover have "\<forall>c \<in> set (py '' ''). isspace c"
    by (simp add: py_def isspace_def)
  ultimately have "\<exists>(h, name) \<in> set header_map. \<exists>h' ws colon.
         strip (py ''Skills :'') = h' @ ws @ colon \<and> list_all2 ci_match h h' \<and>
         (\<forall>c \<in> set ws. isspace c) \<and> (colon = [] \<or> colon = py '':'')"
    by blast
  with inst have 1: "match_header (strip (py ''Skills :'')) \<noteq> None"
    by blast
  have "segment_lines ([] @ py ''Skills'' # [py ''Python, AWS'']) =
        segment_lines [] @ [(''skills'', strip (join (py ''\<newline>'') [py ''Python, AWS'']))]"
    using inst match_header_skills match_header_plain(1) by simp
  then have 2: "segment_lines [py ''Skills'', py ''Python, AWS''] = [(''skills'', py ''Python, AWS'')]"
    by (simp only: st sl append_Nil)
  have 3: "segment_lines [py ''Python, AWS''] = [(''body'', py ''Python, AWS'')]"
    using inst match_header_plain(1) st by simp
  have 4: "segment_lines [py ''Skills'', py ''Education'', py ''Python''] =
     segment_lines [py ''Education'', py ''Python'']"
    using inst match_header_skills match_header_education by simp
  have 5: "split_sections (py ''John Smith\<newline>Python'') = [(''body'', py ''John Smith\<newline>Python'')]"
    using inst tr match_header_plain(2,3) unfolding lines by simp
  have "\<forall>s \<in> set (split_sections (py ''John Smith\<newline>Python'')). snd s \<noteq> []"
    using inst nb by simp
  then have 6: "list_all (\<lambda>s. snd s \<noteq> []) (split_sections (py ''John Smith\<newline>Python''))"
    by (simp only: list_all_iff)
  from 1 2 3 4 5 6 show ?thesis by (intro conjI)
qed

theorem C3_counterexample:
  "match_header (strip (py ''Skills :'')) \<noteq> None \<and>
   \<not> header_line_as_claimed (py ''Skills :'') \<and>
   match_header (py ''a'') = None \<and> match_header (py ''b'') = None \<and>
   split_sections (py ''a\<newline>\<newline>b'') \<noteq> [(''body'', py ''a\<newline>\<newline>b'')]"
proof (intro conjI)
  show "match_header (strip (py ''Skills :'')) \<noteq> None"
    by (simp add: strip_examples match_header_skills_colon)
  show "\<not> header_line_as_claimed (py ''Skills :'')"
    by (rule not_claimed_skills_colon)
  show "match_header (py ''a'') = None" "match_header (py ''b'') = None"
    by (rule match_header_plain)+
  show "split_sections (py ''a\<newline>\<newline>b'') \<noteq> [(''body'', py ''a\<newline>\<newline>b'')]"
    unfolding split_sections_blank_line by (simp add: py_def)
qed

text \<open>
  C4. The output of the cleaning step never contains a newline, whatever the raw text:
  its only white space is single ASCII spaces. The section splitter applied to a cleaned
  text returns exactly one section, named body, holding the cleaned text: no named
  section comes out of the pipeline.
\<close>

theorem C4_cleaned_text_is_one_body_section:
  "ch CHR ''\<newline>'' \<notin> set (clean_text raw) \<and>
   collapsed (clean_text raw) \<and>
   split_sections (clean_text raw) = [(''body'', clean_text raw)]"
proof (intro conjI)
  show "ch CHR ''\<newline>'' \<notin> set (clean_text raw)"
    using clean_text_no_newline [of raw] by simp
next
  show "collapsed (clean_text raw)"
    by (rule collapsed_clean_text)
next
  show "split_sections (clean_text raw) = [(''body'', clean_text raw)]"
    by (rule split_sections_clean_text)
qed

theorem C4_witness:
  "split_sections (py ''Skills Python, AWS'') = [(''body'', py ''Skills Python, AWS'')]"
proof -
  have "split_sections (clean_text (py ''Skills\<newline>Python,   AWS'')) =
        [(''body'', clean_text (py ''Skills\<newline>Python,   AWS''))]"
    using C4_cleaned_text_is_one_body_section [of "py ''Skills\<newline>Python,   AWS''"]
    by blast
  then show ?thesis
    by (simp only: clean_text_skills_example)
qed

text \<open>
  C5, as the code has it. For every text and every list of extra skills, \<open>find_skills\<close>
  returns the sorted (by code point), duplicate-free list of the lower-cased dictionary
  terms that occur in the lower-cased text not immediately preceded by a word character,
  \<^verbatim>\<open>+\<close>, \<^verbatim>\<open>#\<close> or \<^verbatim>\<open>.\<close> and not immediately followed by a word character, \<^verbatim>\<open>+\<close> or \<^verbatim>\<open>-\<close>.
  The code searches the lower-cased text with one space added at each end, and returns the
  empty list for the empty text; this is searching the lower-cased text itself whenever no
  extra term is empty or begins or ends with a space. The four examples of the claim hold.
\<close>

theorem C5_find_skills_boundaries:
  "sorted (find_skills text extra) \<and> distinct (find_skills text extra) \<and>
   set (find_skills text extra) =
     {t \<in> set (map lower (DEFAULT_SKILLS @ extra)).
        text \<noteq> [] \<and>
        occurs_between
          (\<lambda>c. is_word c \<or> c = ch CHR ''+'' \<or> c = ch CHR ''#'' \<or> c = ch CHR ''.'')
          (\<lambda>c. is_word c \<or> c = ch CHR ''+'' \<or> c = ch CHR ''-'')
          t (py '' '' @ lower text @ py '' '')} \<and>
   ((\<forall>t \<in> set extra. t \<noteq> [] \<and> hd t \<noteq> ch CHR '' '' \<and> last t \<noteq> ch CHR '' '') \<longrightarrow>
    set (find_skills text extra) =
      {t \<in> set (map lower (DEFAULT_SKILLS @ extra)).
         occurs_between
           (\<lambda>c. is_word c \<or> c = ch CHR ''+'' \<or> c = ch CHR ''#'' \<or> c = ch CHR ''.'')
           (\<lambda>c. is_word c \<or> c = ch CHR ''+'' \<or> c = ch CHR ''-'')
           t (lower text)}) \<and>
   find_skills (py ''Python PYTHON python'') [] = [py ''python''] \<and>
   py ''go'' \<in> set (find_skills (py ''I code in Go.'') []) \<and>
   py ''go'' \<notin> set (find_skills (py ''I am going home'') []) \<and>
   py ''c++'' \<in> set (find_skills (py ''c++ and c#'') []) \<and>
   py ''c#'' \<in> set (find_skills (py ''c++ and c#'') [])"
proof -
  have b: "(\<lambda>c. is_word c \<or> c = ch CHR ''+'' \<or> c = ch CHR ''#'' \<or> c = ch CHR ''.'') = skill_behind"
    by (rule ext) (simp add: skill_behind_def)
  have a: "(\<lambda>c. is_word c \<or> c = ch CHR ''+'' \<or> c = ch CHR ''-'') = skill_ahead"
    by (rule ext) (simp add: skill_ahead_def)
  have sp: "ch CHR '' '' = (32 :: nat)"
    by simp
  have 1: "sorted (find_skills text extra)"
    by (rule find_skills_sorted)
  have 2: "distinct (find_skills text extra)"
    by (rule find_skills_distinct)
  have 3: "set (find_skills text extra) =
     {t \<in> set (map lower (DEFAULT_SKILLS @ extra)).
        text \<noteq> [] \<and> occurs_between skill_behind skill_ahead t (py '' '' @ lower text @ py '' '')}"
    by (rule find_skills_set)
  have 4: "(\<forall>t \<in> set extra. t \<noteq> [] \<and> hd t \<noteq> 32 \<and> last t \<noteq> 32) \<longrightarrow>
    set (find_skills text extra) =
      {t \<in> set (map lower (DEFAULT_SKILLS @ extra)).
         occurs_between skill_behind skill_ahead t (lower text)}"
    using find_skills_set_unpadded [of extra "text"] by blast
  have 5: "find_skills (py ''Python PYTHON python'') [] = [py ''python'']"
    by (rule skills_python_thrice)
  have 6: "py ''go'' \<in> set (find_skills (py ''I code in Go.'') [])"
    by (simp only: skills_go_sentence list.set insertI1)
  have 7: "py ''go'' \<notin> set (find_skills (py ''I am going home'') [])"
    by (simp only: skills_going list.set empty_iff not_False_eq_True)
  have 8: "py ''c++'' \<in> set (find_skills (py ''c++ and c#'') [])"
    by (simp only: skills_c list.set insertI1 insert_iff simp_thms)
  have 9: "py ''c#'' \<in> set (find_skills (py ''c++ and c#'') [])"
    by (simp only: skills_c list.set insertI1)
  show ?thesis
    unfolding a b sp using 1 2 3 4 5 6 7 8 9 by (intro conjI)
qed

theorem C5_witness:
  "py ''ml'' \<in> set (find_skills (py ''Go and ML'') [py ''ML''])"
proof -
  let ?B = "\<lambda>c. is_word c \<or> c = ch CHR ''+'' \<or> c = ch CHR ''#'' \<or> c = ch CHR ''.''"
  let ?A = "\<lambda>c. is_word c \<or> c = ch CHR ''+'' \<or> c = ch CHR ''-''"
  have h: "\<forall>t \<in> set [py ''ML'']. t \<noteq> [] \<and> hd t \<noteq> ch CHR '' '' \<and> last t \<noteq> ch CHR '' ''"
    by (simp add: py_def)
  have s: "set (find_skills (py ''Go and ML'') [py ''ML'']) =
      {t \<in> set (map lower (DEFAULT_SKILLS @ [py ''ML''])).
         occurs_between ?B ?A t (lower (py ''Go and ML''))}"
    using C5_find_skills_boundaries [of "py ''Go and ML''" "[py ''ML'']"] h by blast
  have l: "lower (py ''ML'') = py ''ml''"
    by (simp add: py_def char_class_defs)
  have "lower (py ''Go and ML'') = py ''go and '' @ py ''ml'' @ []"
    by (simp add: py_def char_class_defs)
  moreover have "\<not> ?B (last (py ''go and ''))"
    by (simp add: py_def char_class_defs)
  ultimately have "occurs_between ?B ?A (py ''ml'') (lower (py ''Go and ML''))"
    unfolding occurs_between_def by blast
  then show ?thesis
    unfolding s using l by simp
qed

theorem C5_counterexample:
  "py ''go'' \<in> set (map lower DEFAULT_SKILLS) \<and>
   occurs_between
     (\<lambda>c. is_word c \<or> c = ch CHR ''+'' \<or> c = ch CHR ''#'' \<or> c = ch CHR ''.'')
     (\<lambda>c. is_word c \<or> c = ch CHR ''-'')
     (py ''go'') (lower (py ''go+'')) \<and>
   py ''go'' \<notin> set (find_skills (py ''go+'') [])"
proof (intro conjI)
  show "py ''go'' \<in> set (map lower DEFAULT_SKILLS)"
    by (rule go_default)
  show "occurs_between
     (\<lambda>c. is_word c \<or> c = ch CHR ''+'' \<or> c = ch CHR ''#'' \<or> c = ch CHR ''.'')
     (\<lambda>c. is_word c \<or> c = ch CHR ''-'')
     (py ''go'') (lower (py ''go+''))"
    by (rule go_occurs_spec)
  show "py ''go'' \<notin> set (find_skills (py ''go+'') [])"
    by (simp only: skills_go_plus list.set empty_iff not_False_eq_True)
qed

text \<open>
  C6. The claim: on the job posting \<open>job_example\<close> the extractor yields the title
  \<^verbatim>\<open>Backend Engineer\<close>, the company \<^verbatim>\<open>Acme\<close>, an experience requirement matching
  \<^verbatim>\<open>3+ years of experience\<close> and an education requirement matching \<^verbatim>\<open>Bachelor's degree\<close>.
  The code does otherwise: cleaning joins the five lines into one, so the title and the
  company run to the end of the text, and the education pattern, whose group holds the
  degree word only, finds \<^verbatim>\<open>Ba\<close> in \<^verbatim>\<open>Backend\<close>. This is what the code returns.
\<close>

theorem C6_job_example_as_extracted:
  "extract_job_data
     (py ''Job Title: Backend Engineer\<newline>Company: Acme\<newline>Requirements\<newline>3+ years of experience\<newline>Bachelor's degree'') =
   Inr [(''title'', PStr (py ''Backend Engineer Company: Acme Requirements 3+ years of experience Bachelor's degree'')),
        (''company'', PStr (py ''Acme Requirements 3+ years of experience Bachelor's degree'')),
        (''skills_required'', PList []),
        (''experience_required'', PStr (py ''3+ years of experience Bachelor's degree'')),
        (''education_required'', PStr (py ''Ba'')),
        (''responsibilities'', PList []),
        (''location'', PNone),
        (''raw_text'', PStr (py ''Job Title: Backend Engineer Company: Acme Requirements 3+ years of experience Bachelor's degree''))]"
proof -
  have ne: "job_example_cleaned \<noteq> []"
    by (simp add: job_example_cleaned_def py_def)
  have req: "requirements_section job_example_cleaned = job_example_cleaned"
    using requirements_job_example by (simp only: clean_job_example)
  have resp: "responsibilities_section job_example_cleaned = []"
    using responsibilities_job_example by (simp only: clean_job_example)
  have "find_skills (requirements_section (clean_text job_example) @ py ''\<newline>'' @
          clean_text job_example) [] = find_skills (clean_text job_example) []"
    by (rule job_skills_whole_text)
  then have skills: "find_skills (job_example_cleaned @ py ''\<newline>'' @ job_example_cleaned) [] = []"
    by (simp only: clean_job_example req skills_job_example)
  have "extract_job_data job_example =
     Inr [(''title'', PStr (py ''Backend Engineer Company: Acme Requirements 3+ years of experience Bachelor's degree'')),
          (''company'', PStr (py ''Acme Requirements 3+ years of experience Bachelor's degree'')),
          (''skills_required'', PList []),
          (''experience_required'', PStr (py ''3+ years of experience Bachelor's degree'')),
          (''education_required'', PStr (py ''Ba'')),
          (''responsibilities'', PList []),
          (''location'', PNone),
          (''raw_text'', PStr job_example_cleaned)]"
    unfolding extract_job_data_def Let_def clean_job_example req resp skills
    using ne
    by (simp add: title_job_example company_job_example location_job_example
        experience_job_example education_job_example extract_bullets_Nil opt_val_def)
  then show ?thesis
    unfolding job_example_def job_example_cleaned_def .
qed

text \<open>
  C7. The claim: the responsibilities are the lines that look like bullets (starting with
  \<^verbatim>\<open>-\<close>, \<^verbatim>\<open>*\<close>, U+2022 or a digit and punctuation), and only when no line looks like one,
  the first twenty non-empty lines as they are. The code strips spaces, hyphens, U+2022
  and tabs from both ends of every line before it looks for the bullet marker, so a line
  that began with a hyphen is not recognised; here the other line is returned as well, and
  the hyphen is gone.
\<close>

theorem C7_dash_bullet_not_preferred:
  "extract_bullets (py ''- Design APIs\<newline>We are a small team'') =
     [py ''Design APIs'', py ''We are a small team'']"
  by (rule bullets_dash_example)

text \<open>
  C8. Text normalization is idempotent: cleaning a text that has already been cleaned
  gives the same text, for every text.
\<close>

theorem C8_clean_text_idempotent: "clean_text (clean_text x) = clean_text x"
  by (rule clean_text_fixed)

theorem C8_witness:
  "clean_text (py ''Skills Python, AWS'') = py ''Skills Python, AWS''"
  using C8_clean_text_idempotent [of "py ''Skills\<newline>Python,   AWS''"]
  by (simp only: clean_text_skills_example)

text \<open>
  C9. For every input text, with the named-entity model absent, present or failing, the
  resume extractor, the job extractor and the router raise no exception and return a
  dictionary with every documented key; a singular field is \<^verbatim>\<open>None\<close> or a string and a
  list field is a list. On the empty text every singular field is \<^verbatim>\<open>None\<close> and every list
  is empty.
\<close>

theorem C9_parsers_total_and_complete:
  "(\<exists>name email phone linkedin github education experience skills projects certifications.
      extract_resume_data nlp raw =
        [(''name'', opt_val name), (''email'', opt_val email), (''phone'', opt_val phone),
         (''education'', PList education), (''experience'', PList experience),
         (''skills'', PList skills), (''projects'', PList projects),
         (''certifications'', PList certifications), (''linkedin'', opt_val linkedin),
         (''github'', opt_val github), (''raw_text'', PStr (clean_text raw))]) \<and>
   (\<exists>title company location experience_required education_required skills_required
      responsibilities.
      extract_job_data raw =
        Inr [(''title'', opt_val title), (''company'', opt_val company),
             (''skills_required'', PList skills_required),
             (''experience_required'', opt_val experience_required),
             (''education_required'', opt_val education_required),
             (''responsibilities'', PList responsibilities),
             (''location'', opt_val location), (''raw_text'', PStr (clean_text raw))]) \<and>
   (\<exists>doc_type data normalized.
      parse nlp raw = Inr [(''type'', PStr doc_type), (''data'', PDict data),
                           (''normalized'', PDict normalized)]) \<and>
   extract_resume_data nlp [] =
     [(''name'', PNone), (''email'', PNone), (''phone'', PNone), (''education'', PList []),
      (''experience'', PList []), (''skills'', PList []), (''projects'', PList []),
      (''certifications'', PList []), (''linkedin'', PNone), (''github'', PNone),
      (''raw_text'', PStr [])] \<and>
   extract_job_data [] =
     Inr [(''title'', PNone), (''company'', PNone), (''skills_required'', PList []),
          (''experience_required'', PNone), (''education_required'', PNone),
          (''responsibilities'', PList []), (''location'', PNone), (''raw_text'', PStr [])]"
proof (intro conjI)
  show "\<exists>name email phone linkedin github education experience skills projects certifications.
      extract_resume_data nlp raw =
        [(''name'', opt_val name), (''email'', opt_val email), (''phone'', opt_val phone),
         (''education'', PList education), (''experience'', PList experience),
         (''skills'', PList skills), (''projects'', PList projects),
         (''certifications'', PList certifications), (''linkedin'', opt_val linkedin),
         (''github'', opt_val github), (''raw_text'', PStr (clean_text raw))]"
    by (rule extract_resume_data_shape)
next
  show "\<exists>title company location experience_required education_required skills_required
      responsibilities.
      extract_job_data raw =
        Inr [(''title'', opt_val title), (''company'', opt_val company),
             (''skills_required'', PList skills_required),
             (''experience_required'', opt_val experience_required),
             (''education_required'', opt_val education_required),
             (''responsibilities'', PList responsibilities),
             (''location'', opt_val location), (''raw_text'', PStr (clean_text raw))]"
    using extract_job_data_shape [of raw] by blast
next
  show "\<exists>doc_type data normalized.
      parse nlp raw = Inr [(''type'', PStr doc_type), (''data'', PDict data),
                           (''normalized'', PDict normalized)]"
    using parse_cases [of nlp raw] by blast
next
  show "extract_resume_data nlp [] =
     [(''name'', PNone), (''email'', PNone), (''phone'', PNone), (''education'', PList []),
      (''experience'', PList []), (''skills'', PList []), (''projects'', PList []),
      (''certifications'', PList []), (''linkedin'', PNone), (''github'', PNone),
      (''raw_text'', PStr [])]"
    by (rule extract_resume_data_Nil)
next
  show "extract_job_data [] =
     Inr [(''title'', PNone), (''company'', PNone), (''skills_required'', PList []),
          (''experience_required'', PNone), (''education_required'', PNone),
          (''responsibilities'', PList []), (''location'', PNone), (''raw_text'', PStr [])]"
    by (rule extract_job_data_Nil)
qed

theorem C9_witness:
  "\<exists>doc_type data normalized.
     parse (Some (\<lambda>chunk. None)) (py ''Jane Doe\<newline>jane@example.org'') =
       Inr [(''type'', PStr doc_type), (''data'', PDict data), (''normalized'', PDict normalized)]"
  using C9_parsers_total_and_complete [of "Some (\<lambda>chunk. None)" "py ''Jane Doe\<newline>jane@example.org''"]
  by blast

text \<open>
  C10. For every input text, the job extractor's \<open>skills_required\<close> is \<open>find_skills\<close> of
  the cleaned whole text: putting the requirements-section text and a newline in front of
  the cleaned text neither adds nor removes a matched skill.
\<close>

theorem C10_job_skills_from_whole_text:
  "find_skills (requirements_section (clean_text raw) @ py ''\<newline>'' @ clean_text raw) [] =
     find_skills (clean_text raw) [] \<and>
   (\<exists>data. extract_job_data raw = Inr data \<and>
      dict_get data ''skills_required'' PNone = PList (find_skills (clean_text raw) []))"
proof
  show "find_skills (requirements_section (clean_text raw) @ py ''\<newline>'' @ clean_text raw) [] =
        find_skills (clean_text raw) []"
    by (rule job_skills_whole_text)
next
  obtain title company location experience_required education_required where
    "extract_job_data raw =
       Inr [(''title'', opt_val title),
            (''company'', opt_val company),
            (''skills_required'',
               PList (find_skills (requirements_section (clean_text raw) @ py ''\<newline>'' @ clean_text raw) [])),
            (''experience_required'', opt_val experience_required),
            (''education_required'', opt_val education_required),
            (''responsibilities'', PList (extract_bullets (responsibilities_section (clean_text raw)))),
            (''location'', opt_val location),
            (''raw_text'', PStr (clean_text raw))]"
    using extract_job_data_shape [of raw] by blast
  then show "\<exists>data. extract_job_data raw = Inr data \<and>
      dict_get data ''skills_required'' PNone = PList (find_skills (clean_text raw) [])"
    by (simp add: dict_get_def job_skills_whole_text)
qed

theorem C10_witness:
  "\<exists>data. extract_job_data (py ''go+'') = Inr data \<and>
     dict_get data ''skills_required'' PNone = PList []"
proof -
  have "clean_text (py ''go+'') = py ''go+''"
    by (simp add: clean_text_def py_def strip_def strip_by_def isspace_def)
  then show ?thesis
    using C10_job_skills_from_whole_text [of "py ''go+''"] by (simp add: skills_go_plus)
qed

end
